theory Spec2Isabelle
  imports Main "HOL-Library.Sublist" "HOL-Library.AList"
begin

chapter \<open>The liturgical calendar and the tiered lectionary lookup\<close>

text \<open>
  A model of \<^verbatim>\<open>calendar_service.py\<close> and \<^verbatim>\<open>lectionary_service.py\<close>: the date of
  Easter, the first Sunday of Advent, the reading cycles, the calendar information with its
  fallback, and the lookup of readings through cache, local files, remote service and built-in
  table. Exceptions are values of a sum type, the collaborators (the calendar package, Redis, the
  file system, the network) are arguments, and a call that writes to the cache returns the
  collaborators as it leaves them. Functions keep their Python names, without the leading
  underscore of the private ones.
\<close>

section \<open>Calendar dates\<close>

text \<open>
  The services work on \<^verbatim>\<open>datetime.date\<close> values. A date is a record of year, month and day;
  the constructor rejects anything outside the proleptic Gregorian calendar of the years 1 to 9999
  with \<^verbatim>\<open>ValueError\<close>, comparison is lexicographic, and \<^verbatim>\<open>weekday()\<close> is read off the
  proleptic ordinal (Monday is 0, Sunday is 6). Adding or subtracting a \<^verbatim>\<open>timedelta\<close> of whole
  days raises \<^verbatim>\<open>OverflowError\<close> when the ordinal of the result leaves the supported range
  and otherwise gives the date of that ordinal, which the model reaches by stepping from day to
  day.
\<close>

text \<open>The exceptions that the modelled code can raise.\<close>

datatype error = ValueError | OverflowError | TypeError | IndexError | KeyError

record date =
  year :: int
  month :: int
  day :: int

definition is_leap :: "int \<Rightarrow> bool" where
  "is_leap y \<longleftrightarrow> y mod 4 = 0 \<and> (y mod 100 \<noteq> 0 \<or> y mod 400 = 0)"

definition days_in_month :: "int \<Rightarrow> int \<Rightarrow> int" where
  "days_in_month y m =
     (if m = 2 then (if is_leap y then 29 else 28)
      else if m = 4 \<or> m = 6 \<or> m = 9 \<or> m = 11 then 30 else 31)"

definition valid_date :: "date \<Rightarrow> bool" where
  "valid_date d \<longleftrightarrow>
     1 \<le> year d \<and> year d \<le> 9999 \<and> 1 \<le> month d \<and> month d \<le> 12 \<and>
     1 \<le> day d \<and> day d \<le> days_in_month (year d) (month d)"

definition date_new :: "int \<Rightarrow> int \<Rightarrow> int \<Rightarrow> error + date" where
  "date_new y m d =
     (let r = \<lparr>year = y, month = m, day = d\<rparr>
      in if valid_date r then Inr r else Inl ValueError)"

text \<open>
  The proleptic ordinal, day 1 being 1 January of the year 1. Only dates of the calendar have
  one, so the month that indexes the table is between 1 and 12.
\<close>

definition days_before_year :: "int \<Rightarrow> int" where
  "days_before_year y = (let p = y - 1 in p * 365 + p div 4 - p div 100 + p div 400)"

definition days_before_month :: "int \<Rightarrow> int \<Rightarrow> int" where
  "days_before_month y m =
     [0, 31, 59, 90, 120, 151, 181, 212, 243, 273, 304, 334] ! nat (m - 1)
       + (if m > 2 \<and> is_leap y then 1 else 0)"

definition toordinal :: "date \<Rightarrow> int" where
  "toordinal d = days_before_year (year d) + days_before_month (year d) (month d) + day d"

definition weekday :: "date \<Rightarrow> int" where
  "weekday d = (toordinal d + 6) mod 7"

definition date_less :: "date \<Rightarrow> date \<Rightarrow> bool" where
  "date_less a b \<longleftrightarrow>
     year a < year b \<or> (year a = year b \<and> (month a < month b \<or> (month a = month b \<and> day a < day b)))"

definition date_le :: "date \<Rightarrow> date \<Rightarrow> bool" where
  "date_le a b \<longleftrightarrow> date_less a b \<or> a = b"

definition prev_day :: "date \<Rightarrow> date" where
  "prev_day d =
     (if 1 < day d then d\<lparr>day := day d - 1\<rparr>
      else if 1 < month d then d\<lparr>month := month d - 1, day := days_in_month (year d) (month d - 1)\<rparr>
      else \<lparr>year = year d - 1, month = 12, day = 31\<rparr>)"

definition next_day :: "date \<Rightarrow> date" where
  "next_day d =
     (if day d < days_in_month (year d) (month d) then d\<lparr>day := day d + 1\<rparr>
      else if month d < 12 then d\<lparr>month := month d + 1, day := 1\<rparr>
      else \<lparr>year = year d + 1, month = 1, day = 1\<rparr>)"

fun shift_days :: "(date \<Rightarrow> date) \<Rightarrow> nat \<Rightarrow> date \<Rightarrow> date" where
  "shift_days stp 0 d = d"
| "shift_days stp (Suc n) d = shift_days stp n (stp d)"

definition MAXORDINAL :: int where
  "MAXORDINAL = 3652059"

definition date_add_days :: "date \<Rightarrow> int \<Rightarrow> error + date" where
  "date_add_days d k =
     (let n = toordinal d + k
      in if n < 1 \<or> MAXORDINAL < n then Inl OverflowError
         else Inr (if 0 \<le> k then shift_days next_day (nat k) d
                   else shift_days prev_day (nat (- k)) d))"

definition date_sub_days :: "date \<Rightarrow> int \<Rightarrow> error + date" where
  "date_sub_days d k = date_add_days d (- k)"

section \<open>calendar service: Easter, Advent and the reading cycles\<close>

text \<open>The Meeus/Jones/Butcher computation of Easter Sunday; \<open>div\<close> and \<open>mod\<close> are Python's.\<close>

definition computus :: "int \<Rightarrow> error + date" where
  "computus yr =
     (let a = yr mod 19;
          b = yr div 100;
          c = yr mod 100;
          d = b div 4;
          e = b mod 4;
          f = (b + 8) div 25;
          g = (b - f + 1) div 3;
          h = (19 * a + b - d - g + 15) mod 30;
          i = c div 4;
          k = c mod 4;
          l = (32 + 2 * e + 2 * i - h - k) mod 7;
          m = (a + 11 * h + 22 * l) div 451;
          mo = (h + l - 7 * m + 114) div 31;
          dy = ((h + l - 7 * m + 114) mod 31) + 1
      in date_new yr mo dy)"

definition first_sunday_of_advent :: "int \<Rightarrow> error + date" where
  "first_sunday_of_advent yr =
     (case date_new yr 12 25 of
        Inl e \<Rightarrow> Inl e
      | Inr christmas \<Rightarrow>
          (let days_to_sunday = (weekday christmas + 1) mod 7
           in case date_sub_days christmas days_to_sunday of
                Inl e \<Rightarrow> Inl e
              | Inr fourth_sunday \<Rightarrow> date_sub_days fourth_sunday (3 * 7)))"

definition calculate_rcl_year :: "date \<Rightarrow> error + string" where
  "calculate_rcl_year dt =
     (case first_sunday_of_advent (year dt) of
        Inl e \<Rightarrow> Inl e
      | Inr advent \<Rightarrow>
          (let yr = (if date_le advent dt then year dt else year dt - 1)
           in case map_of [(0, ''A''), (1, ''B''), (2, ''C'')] (yr mod 3) of
                None \<Rightarrow> Inl KeyError
              | Some s \<Rightarrow> Inr s))"

definition calculate_lectionary_year :: "date \<Rightarrow> error + string" where
  "calculate_lectionary_year dt =
     (case first_sunday_of_advent (year dt) of
        Inl e \<Rightarrow> Inl e
      | Inr advent \<Rightarrow>
          (let yr = (if date_le advent dt then year dt else year dt - 1)
           in Inr (if yr mod 2 = 1 then ''Year One'' else ''Year Two'')))"

text \<open>
  The liturgical year of the specification: the calendar year of the date when the date is on
  or after \<open>first_sunday_of_advent\<close> of that calendar year, and the year before otherwise
  (\<open>first_sunday_of_advent\<close> returns for every year a date can have).
\<close>

definition liturgical_year :: "date \<Rightarrow> int" where
  "liturgical_year D =
     (case first_sunday_of_advent (year D) of
        Inr a \<Rightarrow> if date_le a D then year D else year D - 1
      | Inl e \<Rightarrow> year D - 1)"

text \<open>
  The check on one year's Easter date: it is a date of that year, between March 22 and April 25,
  and a Sunday.
\<close>

definition easter_ok :: "int \<Rightarrow> bool" where
  "easter_ok Y =
     (case computus Y of
        Inl e \<Rightarrow> False
      | Inr d \<Rightarrow> year d = Y
                 \<and> date_le \<lparr>year = Y, month = 3, day = 22\<rparr> d
                 \<and> date_le d \<lparr>year = Y, month = 4, day = 25\<rparr>
                 \<and> weekday d = 6)"

section \<open>Strings\<close>

text \<open>
  Strings are lists of 8-bit characters. \<open>lower\<close> maps the letters A to Z to a to z, as
  Python's \<^verbatim>\<open>str.lower\<close> does on ASCII text (the names of the built-in table are ASCII, so
  a letter outside ASCII in a day name matches none of their characters, lowered or not);
  \<open>strip\<close> removes the white space of \<^verbatim>\<open>str.strip\<close> at both ends.
\<close>

definition lower_char :: "char \<Rightarrow> char" where
  "lower_char c =
     (case map_of (zip ''ABCDEFGHIJKLMNOPQRSTUVWXYZ'' ''abcdefghijklmnopqrstuvwxyz'') c of
        None \<Rightarrow> c
      | Some l \<Rightarrow> l)"

text \<open>The same function on the bits of the character (the letters are 65 to 90; 32 is added).\<close>

lemma lower_char_bits [code]:
  "lower_char (Char b0 b1 b2 b3 b4 b5 b6 b7) =
     (if \<not> b7 \<and> b6 \<and> \<not> b5 \<and> (b0 \<or> b1 \<or> b2 \<or> b3 \<or> b4) \<and> \<not> (b4 \<and> b3 \<and> (b2 \<or> (b1 \<and> b0)))
      then Char b0 b1 b2 b3 b4 True b6 b7
      else Char b0 b1 b2 b3 b4 b5 b6 b7)"
  by (cases b0; cases b1; cases b2; cases b3; cases b4; cases b5; cases b6; cases b7;
      simp add: lower_char_def)

definition lower :: "string \<Rightarrow> string" where
  "lower s = map lower_char s"

definition is_space :: "char \<Rightarrow> bool" where
  "is_space c \<longleftrightarrow>
     c \<in> set [CHR 0x09, CHR 0x0A, CHR 0x0B, CHR 0x0C, CHR 0x0D, CHR 0x1C, CHR 0x1D, CHR 0x1E,
                CHR 0x1F, CHR 0x20, CHR 0x85, CHR 0xA0]"

definition strip :: "string \<Rightarrow> string" where
  "strip s = rev (dropWhile is_space (rev (dropWhile is_space s)))"

function digits :: "int \<Rightarrow> string" where
  "digits n =
     (if n < 10 then [''0123456789'' ! nat n]
      else digits (n div 10) @ [''0123456789'' ! nat (n mod 10)])"
  by pat_completeness auto
termination
  by (relation "measure nat") auto

declare digits.simps [simp del]

definition str_of_int :: "int \<Rightarrow> string" where
  "str_of_int i = (if i < 0 then CHR ''-'' # digits (- i) else digits i)"

definition zero_pad :: "nat \<Rightarrow> string \<Rightarrow> string" where
  "zero_pad w s = replicate (w - length s) (CHR ''0'') @ s"

definition isoformat :: "date \<Rightarrow> string" where
  "isoformat d =
     zero_pad 4 (str_of_int (year d)) @ ''-'' @ zero_pad 2 (str_of_int (month d))
       @ ''-'' @ zero_pad 2 (str_of_int (day d))"

text \<open>
  \<^verbatim>\<open>datetime.strptime(s, "%Y-%m-%d").date()\<close>: four digits, a dash, a month written
  with one or two digits, a dash, a day written with one or two digits (a space may stand for
  the leading zero of the day), nothing after it, and the three numbers form a date.
\<close>

definition is_digit :: "char \<Rightarrow> bool" where
  "is_digit c \<longleftrightarrow> c \<in> set ''0123456789''"

definition digit_val :: "char \<Rightarrow> int" where
  "digit_val c = int (length (takeWhile (\<lambda>x. x \<noteq> c) ''0123456789''))"

definition parse_month :: "string \<Rightarrow> int option" where
  "parse_month t =
     (case t of
        [a] \<Rightarrow> if is_digit a \<and> a \<noteq> CHR ''0'' then Some (digit_val a) else None
      | [a, b] \<Rightarrow>
          if a = CHR ''1'' \<and> b \<in> set ''012'' then Some (10 + digit_val b)
          else if a = CHR ''0'' \<and> is_digit b \<and> b \<noteq> CHR ''0'' then Some (digit_val b)
          else None
      | _ \<Rightarrow> None)"

definition parse_day :: "string \<Rightarrow> int option" where
  "parse_day t =
     (case t of
        [a] \<Rightarrow> if is_digit a \<and> a \<noteq> CHR ''0'' then Some (digit_val a) else None
      | [a, b] \<Rightarrow>
          if a = CHR ''3'' \<and> b \<in> set ''01'' then Some (30 + digit_val b)
          else if a \<in> set ''12'' \<and> is_digit b then Some (10 * digit_val a + digit_val b)
          else if a \<in> set ''0 '' \<and> is_digit b \<and> b \<noteq> CHR ''0'' then Some (digit_val b)
          else None
      | _ \<Rightarrow> None)"

definition strptime_ymd :: "string \<Rightarrow> error + date" where
  "strptime_ymd s =
     (case s of
        y1 # y2 # y3 # y4 # dash # rest \<Rightarrow>
          if list_all is_digit [y1, y2, y3, y4] \<and> dash = CHR ''-'' then
            (case dropWhile (\<lambda>c. c \<noteq> CHR ''-'') rest of
               [] \<Rightarrow> Inl ValueError
             | _ # dtext \<Rightarrow>
                 (case (parse_month (takeWhile (\<lambda>c. c \<noteq> CHR ''-'') rest), parse_day dtext) of
                    (Some m, Some d) \<Rightarrow>
                      date_new (1000 * digit_val y1 + 100 * digit_val y2 + 10 * digit_val y3
                                  + digit_val y4) m d
                  | _ \<Rightarrow> Inl ValueError))
          else Inl ValueError
      | _ \<Rightarrow> Inl ValueError)"

text \<open>
  The argument of the two public entry points: an ISO date string, which is parsed, or a date
  object (a \<^verbatim>\<open>datetime\<close> is reduced to its date in the same place).
\<close>

datatype dt_arg = DStr string | DDate date

definition to_date :: "dt_arg \<Rightarrow> error + date" where
  "to_date arg = (case arg of DStr s \<Rightarrow> strptime_ymd s | DDate d \<Rightarrow> Inr d)"

text \<open>Python dictionaries with a default: \<^verbatim>\<open>d.get(k, default)\<close>.\<close>

definition dict_get :: "('k \<times> 'v) list \<Rightarrow> 'k \<Rightarrow> 'v \<Rightarrow> 'v" where
  "dict_get d k dflt = (case map_of d k of None \<Rightarrow> dflt | Some v \<Rightarrow> v)"

text \<open>Python list indexing: a negative index counts from the end, anything else out of range raises.\<close>

definition py_index :: "'a list \<Rightarrow> int \<Rightarrow> error + 'a" where
  "py_index xs i =
     (if 0 \<le> i \<and> i < int (length xs) then Inr (xs ! nat i)
      else if i < 0 \<and> - int (length xs) \<le> i then Inr (xs ! nat (int (length xs) + i))
      else Inl IndexError)"

section \<open>calendar service: the Episcopal names and the calendar information\<close>

definition SEASON_MAP :: "(string \<times> string) list" where
  "SEASON_MAP =
     [(''Advent'', ''Advent''),
      (''Christmas'', ''Christmas''),
      (''Epiphany'', ''The Season after the Epiphany''),
      (''before Lent'', ''The Season after the Epiphany''),
      (''Lent'', ''Lent''),
      (''Easter'', ''Easter''),
      (''Pentecost'', ''The Season after Pentecost''),
      (''before Advent'', ''The Season after Pentecost''),
      (''Ordinary Time'', ''The Season after Pentecost'')]"

definition COLOUR_MAP :: "(string \<times> string) list" where
  "COLOUR_MAP =
     [(''Advent'', ''Purple''),
      (''Christmas'', ''White''),
      (''The Season after the Epiphany'', ''Green''),
      (''Lent'', ''Purple''),
      (''Easter'', ''White''),
      (''The Season after Pentecost'', ''Green'')]"

definition EPIPHANY_NAMES :: "(int \<times> string) list" where
  "EPIPHANY_NAMES =
     [(1, ''The First Sunday after the Epiphany: The Baptism of our Lord''),
      (2, ''The Second Sunday after the Epiphany''),
      (3, ''The Third Sunday after the Epiphany''),
      (4, ''The Fourth Sunday after the Epiphany''),
      (5, ''The Fifth Sunday after the Epiphany''),
      (6, ''The Sixth Sunday after the Epiphany''),
      (7, ''The Seventh Sunday after the Epiphany''),
      (8, ''The Eighth Sunday after the Epiphany''),
      (9, ''The Last Sunday after the Epiphany'')]"

definition LENT_NAMES :: "(int \<times> string) list" where
  "LENT_NAMES =
     [(1, ''The First Sunday in Lent''),
      (2, ''The Second Sunday in Lent''),
      (3, ''The Third Sunday in Lent''),
      (4, ''The Fourth Sunday in Lent''),
      (5, ''The Fifth Sunday in Lent''),
      (6, ''Palm Sunday'')]"

definition EASTER_NAMES :: "(int \<times> string) list" where
  "EASTER_NAMES =
     [(1, ''Easter Day''),
      (2, ''The Second Sunday of Easter''),
      (3, ''The Third Sunday of Easter''),
      (4, ''The Fourth Sunday of Easter''),
      (5, ''The Fifth Sunday of Easter''),
      (6, ''The Sixth Sunday of Easter''),
      (7, ''The Sunday after the Ascension''),
      (8, ''The Day of Pentecost'')]"

definition map_episcopal_name :: "string \<Rightarrow> int \<Rightarrow> string \<Rightarrow> error + string" where
  "map_episcopal_name season weekno cal_name =
     (let mapped_season = dict_get SEASON_MAP season season
      in if mapped_season = ''Advent'' then
           (if weekno \<noteq> 0 then
              (case py_index [''First'', ''Second'', ''Third'', ''Fourth''] (min (weekno - 1) 3) of
                 Inl e \<Rightarrow> Inl e
               | Inr ordinal \<Rightarrow> Inr (''The '' @ ordinal @ '' Sunday of Advent''))
            else Inr ''Advent'')
         else if mapped_season = ''The Season after the Epiphany'' then
           (if ''Epiphany'' = cal_name \<or> cal_name = ''The Epiphany'' then Inr ''The Epiphany''
            else Inr (dict_get EPIPHANY_NAMES weekno
                        (''The Season after the Epiphany (Week '' @ str_of_int weekno @ '')'')))
         else if mapped_season = ''Lent'' then
           Inr (dict_get LENT_NAMES weekno (''Lent Week '' @ str_of_int weekno))
         else if mapped_season = ''Easter'' then
           Inr (dict_get EASTER_NAMES weekno (''Easter Week '' @ str_of_int weekno))
         else if mapped_season = ''The Season after Pentecost'' then
           (if weekno \<noteq> 0 \<and> weekno > 0 then
              Inr (''Proper '' @ str_of_int (weekno + 1) @ '' (The Season after Pentecost)'')
            else Inr ''The Season after Pentecost'')
         else Inr (if cal_name \<noteq> [] then cal_name else mapped_season))"

text \<open>
  What the external \<^verbatim>\<open>liturgical_calendar\<close> package answers for a date, after the
  defaults of \<^verbatim>\<open>cal.get\<close>: a season in the package's vocabulary, a week number and a name.
\<close>

record cal =
  cal_season :: string
  cal_weekno :: int
  cal_name :: string

text \<open>
  The dictionary \<open>get_calendar_info\<close> returns, one field for each of its keys; the key
  \<^verbatim>\<open>raw_calendar\<close> is absent on the built-in path.
\<close>

record calendar_info =
  ci_date :: string
  ci_is_sunday :: bool
  ci_rcl_year :: string
  ci_lectionary_year :: string
  ci_easter_date :: string
  ci_day_name :: string
  ci_season :: string
  ci_colour :: string
  ci_raw_calendar :: "cal option"

text \<open>The built-in season calculator, the last block of \<open>get_calendar_info\<close>.\<close>

definition builtin_season :: "date \<Rightarrow> error + string" where
  "builtin_season dt =
     (case computus (year dt) of
        Inl e \<Rightarrow> Inl e
      | Inr easter_dt \<Rightarrow>
     (case date_sub_days easter_dt 46 of
        Inl e \<Rightarrow> Inl e
      | Inr ash_wed \<Rightarrow>
     (case date_add_days easter_dt 49 of
        Inl e \<Rightarrow> Inl e
      | Inr pentecost \<Rightarrow>
     (case first_sunday_of_advent (year dt) of
        Inl e \<Rightarrow> Inl e
      | Inr advent \<Rightarrow>
     (case date_new (year dt) 1 6 of
        Inl e \<Rightarrow> Inl e
      | Inr epiphany \<Rightarrow>
          if date_le advent dt then Inr ''Advent''
          else (case date_new (year dt) 12 25 of
                  Inl e \<Rightarrow> Inl e
                | Inr christmas \<Rightarrow>
                    if date_le christmas dt then Inr ''Christmas''
                    else if date_less dt epiphany then Inr ''Christmas''
                    else if date_less dt ash_wed then Inr ''The Season after the Epiphany''
                    else if date_less dt easter_dt then Inr ''Lent''
                    else if date_less dt pentecost then Inr ''Easter''
                    else Inr ''The Season after Pentecost''))))))"

definition builtin_info :: "calendar_info \<Rightarrow> date \<Rightarrow> error + calendar_info" where
  "builtin_info result dt =
     (case builtin_season dt of
        Inl e \<Rightarrow> Inl e
      | Inr s \<Rightarrow>
          Inr (result\<lparr>ci_day_name := s, ci_season := s, ci_colour := dict_get COLOUR_MAP s ''Green''\<rparr>))"

text \<open>
  \<open>get_calendar_info\<close>. The first argument is the package: \<open>None\<close> when it could not be
  imported, otherwise its function from the date, which answers \<open>None\<close> when the call raises.
  Any exception of the package branch, the name mapping included, leads to the built-in block.
\<close>

definition get_calendar_info :: "(date \<Rightarrow> cal option) option \<Rightarrow> dt_arg \<Rightarrow> error + calendar_info" where
  "get_calendar_info pkg arg =
     (case to_date arg of
        Inl e \<Rightarrow> Inl e
      | Inr dt \<Rightarrow>
     (case calculate_rcl_year dt of
        Inl e \<Rightarrow> Inl e
      | Inr rcl \<Rightarrow>
     (case calculate_lectionary_year dt of
        Inl e \<Rightarrow> Inl e
      | Inr lect \<Rightarrow>
     (case computus (year dt) of
        Inl e \<Rightarrow> Inl e
      | Inr easter \<Rightarrow>
          (let result = \<lparr>ci_date = isoformat dt, ci_is_sunday = (weekday dt = 6), ci_rcl_year = rcl,
                         ci_lectionary_year = lect, ci_easter_date = isoformat easter,
                         ci_day_name = [], ci_season = [], ci_colour = [], ci_raw_calendar = None\<rparr>
           in case pkg of
                None \<Rightarrow> builtin_info result dt
              | Some liturgical_calendar \<Rightarrow>
                  (case liturgical_calendar dt of
                     None \<Rightarrow> builtin_info result dt
                   | Some c \<Rightarrow>
                       (let pkg_season = cal_season c;
                            mapped_season = dict_get SEASON_MAP pkg_season pkg_season
                        in case map_episcopal_name pkg_season (cal_weekno c) (cal_name c) of
                             Inl e \<Rightarrow> builtin_info result dt
                           | Inr dn \<Rightarrow>
                               Inr (result\<lparr>ci_day_name := dn, ci_season := mapped_season,
                                      ci_colour := dict_get COLOUR_MAP mapped_season ''Green'',
                                      ci_raw_calendar := Some c\<rparr>))))))))"

section \<open>lectionary service: values, collaborators and the four tiers\<close>

text \<open>
  JSON values as Python reads them: \<open>JNull\<close> is \<^verbatim>\<open>None\<close>, an object is a dictionary in
  insertion order. Numbers are the integers.
\<close>

datatype json =
    JNull
  | JBool bool
  | JInt int
  | JStr string
  | JArr "json list"
  | JObj "(string \<times> json) list"

text \<open>Python's truth value of such a value, as \<^verbatim>\<open>if cached:\<close> tests it.\<close>

fun truthy :: "json \<Rightarrow> bool" where
  "truthy JNull = False"
| "truthy (JBool b) = b"
| "truthy (JInt n) = (n \<noteq> 0)"
| "truthy (JStr s) = (s \<noteq> [])"
| "truthy (JArr xs) = (xs \<noteq> [])"
| "truthy (JObj kvs) = (kvs \<noteq> [])"

text \<open>
  What the cache store holds under a key. Serialisation belongs to the \<^verbatim>\<open>json\<close> module of
  the standard library and is kept abstract: \<open>Encoded v\<close> is a text that \<^verbatim>\<open>json.loads\<close>
  reads as \<open>v\<close>, and \<^verbatim>\<open>json.dumps\<close> of \<open>v\<close> is such a text; \<open>Malformed\<close> is any text
  that \<^verbatim>\<open>json.loads\<close> rejects; \<open>Empty\<close> is the empty string.
\<close>

datatype wire = Empty | Malformed | Encoded json

text \<open>A dataset file: not there, there but failing to open or to parse, or parsed.\<close>

datatype file_state = Absent | Unreadable | Parsed json

text \<open>
  The answer to an HTTP GET: a transport failure (a timeout and a missing \<^verbatim>\<open>httpx\<close> module
  included), or a status code with a body that parses as JSON or does not.
\<close>

datatype body = BadBody | JsonBody json

datatype http_reply = NetError | Reply int body

text \<open>
  The service object after \<^verbatim>\<open>__init__\<close>: whether a Redis client was kept, the dataset
  directory if one was given, and the base URL of the remote service.
\<close>

record service =
  redis_client :: bool
  daily_office_path :: "string option"
  lectserve_base :: string

text \<open>
  The collaborators at the time of a call: whether the Redis server answers (every call raises
  when it does not), what it stores under each key (the time-to-live in seconds and the text), the
  files, and the remote service.
\<close>

record world =
  redis_up :: bool
  redis_store :: "string \<Rightarrow> (int \<times> wire) option"
  files :: "string \<Rightarrow> file_state"
  http :: "string \<Rightarrow> http_reply"

definition readings4 :: "string \<Rightarrow> string \<Rightarrow> string \<Rightarrow> string \<Rightarrow> json" where
  "readings4 first_lesson psalm second_lesson gospel =
     JObj [(''first_lesson'', JStr first_lesson), (''psalm'', JStr psalm),
           (''second_lesson'', JStr second_lesson), (''gospel'', JStr gospel)]"

definition BUILTIN_YEAR_A :: "(string \<times> json) list" where
  "BUILTIN_YEAR_A =
     [(''The First Sunday of Advent'',
         readings4 ''Isaiah 2:1-5'' ''Psalm 122'' ''Romans 13:11-14'' ''Matthew 24:36-44''),
      (''The Second Sunday of Advent'',
         readings4 ''Isaiah 11:1-10'' ''Psalm 72:1-7, 18-19'' ''Romans 15:4-13'' ''Matthew 3:1-12''),
      (''The Third Sunday of Advent'',
         readings4 ''Isaiah 35:1-10'' ''Psalm 146:4-9 or Canticle 15'' ''James 5:7-10''
           ''Matthew 11:2-11''),
      (''The Fourth Sunday of Advent'',
         readings4 ''Isaiah 7:10-16'' ''Psalm 80:1-7, 16-18'' ''Romans 1:1-7'' ''Matthew 1:18-25''),
      (''Christmas'',
         readings4 ''Isaiah 9:2-7'' ''Psalm 96'' ''Titus 2:11-14'' ''Luke 2:1-20''),
      (''The Epiphany'',
         readings4 ''Isaiah 60:1-6'' ''Psalm 72:1-7, 10-14'' ''Ephesians 3:1-12'' ''Matthew 2:1-12''),
      (''The First Sunday after the Epiphany'',
         readings4 ''Isaiah 42:1-9'' ''Psalm 29'' ''Acts 10:34-43'' ''Matthew 3:13-17''),
      (''The Second Sunday after the Epiphany'',
         readings4 ''Isaiah 49:1-7'' ''Psalm 40:1-12'' ''1 Corinthians 1:1-9'' ''John 1:29-42''),
      (''The Third Sunday after the Epiphany'',
         readings4 ''Isaiah 9:1-4'' ''Psalm 27:1, 5-13'' ''1 Corinthians 1:10-18''
           ''Matthew 4:12-23''),
      (''The Fourth Sunday after the Epiphany'',
         readings4 ''Micah 6:1-8'' ''Psalm 15'' ''1 Corinthians 1:18-31'' ''Matthew 5:1-12''),
      (''The Fifth Sunday after the Epiphany'',
         readings4 ''Isaiah 58:1-9a'' ''Psalm 112:1-9'' ''1 Corinthians 2:1-12'' ''Matthew 5:13-20''),
      (''The Sixth Sunday after the Epiphany'',
         readings4 ''Deuteronomy 30:15-20'' ''Psalm 119:1-8'' ''1 Corinthians 3:1-9''
           ''Matthew 5:21-37''),
      (''The Seventh Sunday after the Epiphany'',
         readings4 ''Leviticus 19:1-2, 9-18'' ''Psalm 119:33-40'' ''1 Corinthians 3:10-11, 16-23''
           ''Matthew 5:38-48''),
      (''The Last Sunday after the Epiphany'',
         readings4 ''Exodus 24:12-18'' ''Psalm 2 or Psalm 99'' ''2 Peter 1:16-21'' ''Matthew 17:1-9''),
      (''The First Sunday in Lent'',
         readings4 ''Genesis 2:15-17; 3:1-7'' ''Psalm 32'' ''Romans 5:12-19'' ''Matthew 4:1-11''),
      (''The Second Sunday in Lent'',
         readings4 ''Genesis 12:1-4a'' ''Psalm 121'' ''Romans 4:1-5, 13-17'' ''John 3:1-17''),
      (''The Third Sunday in Lent'',
         readings4 ''Exodus 17:1-7'' ''Psalm 95'' ''Romans 5:1-11'' ''John 4:5-42''),
      (''The Fourth Sunday in Lent'',
         readings4 ''1 Samuel 16:1-13'' ''Psalm 23'' ''Ephesians 5:8-14'' ''John 9:1-41''),
      (''The Fifth Sunday in Lent'',
         readings4 ''Ezekiel 37:1-14'' ''Psalm 130'' ''Romans 8:6-11'' ''John 11:1-45''),
      (''Palm Sunday'',
         readings4 ''Isaiah 50:4-9a'' ''Psalm 31:9-16'' ''Philippians 2:5-11''
           ''Matthew 26:14-27:66''),
      (''Easter Day'',
         readings4 ''Acts 10:34-43'' ''Psalm 118:1-2, 14-24'' ''Colossians 3:1-4''
           ''Matthew 28:1-10''),
      (''The Second Sunday of Easter'',
         readings4 ''Acts 2:14a, 22-32'' ''Psalm 16'' ''1 Peter 1:3-9'' ''John 20:19-31''),
      (''The Third Sunday of Easter'',
         readings4 ''Acts 2:14a, 36-41'' ''Psalm 116:1-3, 10-17'' ''1 Peter 1:17-23''
           ''Luke 24:13-35''),
      (''The Day of Pentecost'',
         readings4 ''Acts 2:1-21'' ''Psalm 104:25-35, 37'' ''1 Corinthians 12:3b-13''
           ''John 20:19-23''),
      (''Trinity Sunday'',
         readings4 ''Genesis 1:1-2:4a'' ''Psalm 8'' ''2 Corinthians 13:11-13''
           ''Matthew 28:16-20'')]"

subsection \<open>Tier 1: the Redis cache\<close>

definition cache_get :: "service \<Rightarrow> world \<Rightarrow> string \<Rightarrow> json" where
  "cache_get svc w key =
     (if \<not> redis_client svc then JNull
      else if \<not> redis_up w then JNull
      else (case redis_store w key of
              None \<Rightarrow> JNull
            | Some (ttl, Empty) \<Rightarrow> JNull
            | Some (ttl, Malformed) \<Rightarrow> JNull
            | Some (ttl, Encoded v) \<Rightarrow> v))"

definition cache_set :: "service \<Rightarrow> world \<Rightarrow> string \<Rightarrow> json \<Rightarrow> int \<Rightarrow> world" where
  "cache_set svc w key data ttl =
     (if \<not> redis_client svc then w
      else if \<not> redis_up w then w
      else w\<lparr>redis_store := (redis_store w)(key \<mapsto> (ttl, Encoded data))\<rparr>)"

definition default_ttl :: int where
  "default_ttl = 86400 * 7"

subsection \<open>Tier 2: the local daily-office files\<close>

definition month_name :: "int \<Rightarrow> string" where
  "month_name m =
     [''January'', ''February'', ''March'', ''April'', ''May'', ''June'', ''July'', ''August'',
      ''September'', ''October'', ''November'', ''December''] ! nat (m - 1)"

text \<open>\<^verbatim>\<open>s.replace(" 0", " ")\<close>, scanning from the left without overlap.\<close>

fun replace_space_zero :: "string \<Rightarrow> string" where
  "replace_space_zero (a # b # cs) =
     (if a = CHR '' '' \<and> b = CHR ''0'' then CHR '' '' # replace_space_zero cs
      else a # replace_space_zero (b # cs))"
| "replace_space_zero cs = cs"

definition day_target :: "date \<Rightarrow> string" where
  "day_target dt =
     replace_space_zero (month_name (month dt) @ '' '' @ zero_pad 2 (str_of_int (day dt)))"

fun scan_offices :: "string \<Rightarrow> json list \<Rightarrow> (string \<times> json) list option" where
  "scan_offices target [] = None"
| "scan_offices target (office # rest) =
     (case office of
        JObj kvs \<Rightarrow>
          if dict_get kvs ''day'' (JStr '''') = JStr target
          then Some [(''source'', JStr ''daily-office-json''), (''readings'', office)]
          else scan_offices target rest
      | _ \<Rightarrow> None)"

definition dataset_file :: "string \<Rightarrow> date \<Rightarrow> string" where
  "dataset_file dir dt =
     (let year_num = (if date_less dt \<lparr>year = year dt, month = 11, day = 27\<rparr>
                      then year dt - 1 else year dt)
      in dir @ ''/json/readings/''
           @ (if year_num mod 2 = 1 then ''year-one.json'' else ''year-two.json''))"

definition lookup_daily_office :: "service \<Rightarrow> world \<Rightarrow> date \<Rightarrow> (string \<times> json) list option" where
  "lookup_daily_office svc w dt =
     (case daily_office_path svc of
        None \<Rightarrow> None
      | Some dir \<Rightarrow>
          (case date_new (year dt) 11 27 of
             Inl e \<Rightarrow> None
           | Inr advent \<Rightarrow>
               (case files w (dataset_file dir dt) of
                  Absent \<Rightarrow> None
                | Unreadable \<Rightarrow> None
                | Parsed offices \<Rightarrow>
                    (case offices of
                       JArr entries \<Rightarrow> scan_offices (day_target dt) entries
                     | _ \<Rightarrow> None))))"

subsection \<open>Tier 3: the LectServe service\<close>

definition lectserve_url :: "service \<Rightarrow> date \<Rightarrow> string" where
  "lectserve_url svc dt = lectserve_base svc @ ''/date/'' @ isoformat dt @ ''?lect=rcl''"

definition lookup_lectserve :: "service \<Rightarrow> world \<Rightarrow> date \<Rightarrow> (string \<times> json) list option" where
  "lookup_lectserve svc w dt =
     (case http w (lectserve_url svc dt) of
        NetError \<Rightarrow> None
      | Reply status_code b \<Rightarrow>
          if status_code = 200 then
            (case b of
               BadBody \<Rightarrow> None
             | JsonBody data \<Rightarrow> Some [(''source'', JStr ''lectserve''), (''readings'', data)])
          else None)"

subsection \<open>Tier 4: the built-in Year A table\<close>

definition builtin_result :: "json \<Rightarrow> (string \<times> json) list" where
  "builtin_result readings = [(''source'', JStr ''builtin-year-a''), (''readings'', readings)]"

text \<open>The first loop of \<open>lookup_builtin\<close>: the first entry whose lowered name is the lowered day name.\<close>

fun exact_match :: "string \<Rightarrow> (string \<times> json) list \<Rightarrow> (string \<times> json) list option" where
  "exact_match name_lower [] = None"
| "exact_match name_lower ((pattern, readings) # rest) =
     (if lower pattern = name_lower then Some (builtin_result readings)
      else exact_match name_lower rest)"

text \<open>The second loop, with its two variables \<open>best_match\<close> and \<open>best_len\<close>.\<close>

fun partial_match ::
  "string \<Rightarrow> (string \<times> json) list \<Rightarrow> (string \<times> json) list option \<Rightarrow> nat
     \<Rightarrow> (string \<times> json) list option" where
  "partial_match name_lower [] best_match best_len = best_match"
| "partial_match name_lower ((pattern, readings) # rest) best_match best_len =
     (let p_lower = lower pattern
      in if sublist p_lower name_lower \<and> length p_lower > best_len
         then partial_match name_lower rest (Some (builtin_result readings)) (length p_lower)
         else partial_match name_lower rest best_match best_len)"

definition lookup_builtin :: "string \<Rightarrow> (string \<times> json) list option" where
  "lookup_builtin day_name =
     (if day_name = [] then None
      else (let name_lower = strip (lower day_name)
            in case exact_match name_lower BUILTIN_YEAR_A of
                 Some r \<Rightarrow> Some r
               | None \<Rightarrow> partial_match name_lower BUILTIN_YEAR_A None 0))"

subsection \<open>The public lookup\<close>

definition none_result :: "(string \<times> json) list" where
  "none_result =
     [(''source'', JStr ''none''), (''readings'', JNull), (''message'', JStr ''No readings found'')]"

definition cache_key :: "date \<Rightarrow> string" where
  "cache_key dt = ''rcl:'' @ isoformat dt"

text \<open>
  \<open>get_readings\<close> returns the dictionary together with the collaborators after the call (only
  the cache store can have changed). A cached value that is truthy but no dictionary makes the
  item assignment raise \<^verbatim>\<open>TypeError\<close>. A \<open>day_name\<close> of \<open>None\<close> or the empty string is not
  looked up.
\<close>

definition get_readings ::
  "service \<Rightarrow> world \<Rightarrow> dt_arg \<Rightarrow> string option \<Rightarrow> error + ((string \<times> json) list \<times> world)" where
  "get_readings svc w arg day_name =
     (case to_date arg of
        Inl e \<Rightarrow> Inl e
      | Inr dt \<Rightarrow>
          (let cached = cache_get svc w (cache_key dt)
           in if truthy cached then
                (case cached of
                   JObj kvs \<Rightarrow> Inr (AList.update ''source'' (JStr ''redis-cache'') kvs, w)
                 | _ \<Rightarrow> Inl TypeError)
              else
                (let result = lookup_daily_office svc w dt;
                     result = (if result = None then lookup_lectserve svc w dt else result);
                     result = (if result = None \<and> day_name \<noteq> None \<and> day_name \<noteq> Some []
                               then lookup_builtin (the day_name) else result)
                 in case result of
                      Some r \<Rightarrow> Inr (r, cache_set svc w (cache_key dt) (JObj r) default_ttl)
                    | None \<Rightarrow> Inr (none_result, w))))"

text \<open>Two calls in a row with the same arguments, the second on the collaborators the first left.\<close>

definition get_readings_twice ::
  "service \<Rightarrow> world \<Rightarrow> dt_arg \<Rightarrow> string option \<Rightarrow> error + ((string \<times> json) list \<times> world)" where
  "get_readings_twice svc w arg day_name =
     (case get_readings svc w arg day_name of
        Inl e \<Rightarrow> Inl e
      | Inr (r, w') \<Rightarrow> get_readings svc w' arg day_name)"

subsection \<open>Concrete services and collaborators\<close>

text \<open>\<^verbatim>\<open>LectionaryService()\<close> with its default arguments: no cache, no dataset directory.\<close>

definition default_service :: service where
  "default_service =
     \<lparr>redis_client = False, daily_office_path = None, lectserve_base = ''https://lectserve.com''\<rparr>"

text \<open>A service that was given a reachable Redis and a dataset directory.\<close>

definition full_service :: service where
  "full_service =
     \<lparr>redis_client = True, daily_office_path = Some ''/srv/daily-office'',
      lectserve_base = ''https://lectserve.com''\<rparr>"

text \<open>Nothing answers: Redis is down, no file exists, the network fails.\<close>

definition offline_world :: world where
  "offline_world =
     \<lparr>redis_up = False, redis_store = (\<lambda>k. None), files = (\<lambda>p. Absent), http = (\<lambda>u. NetError)\<rparr>"

text \<open>Redis answers and is empty; the dataset files do not parse; the remote service is out of order.\<close>

definition degraded_world :: world where
  "degraded_world =
     \<lparr>redis_up = True, redis_store = (\<lambda>k. None), files = (\<lambda>p. Unreadable),
      http = (\<lambda>u. Reply 503 BadBody)\<rparr>"

text \<open>Redis answers and is empty, no file exists, and the remote service answers every request.\<close>

definition online_world :: world where
  "online_world =
     \<lparr>redis_up = True, redis_store = (\<lambda>k. None), files = (\<lambda>p. Absent),
      http = (\<lambda>u. Reply 200 (JsonBody (JObj [(''gospel'', JStr ''Matthew 4:12-23'')])))\<rparr>"

text \<open>A package that answers every date with a season the season table does not know.\<close>

definition trinity_package :: "date \<Rightarrow> cal option" where
  "trinity_package d = Some \<lparr>cal_season = ''Trinity'', cal_weekno = 3, cal_name = ''Trinity 3''\<rparr>"

section \<open>Facts about the date model\<close>

lemma div_succ:
  fixes n c :: int
  assumes "0 < c"
  shows "(n + 1) div c = n div c + (if (n + 1) mod c = 0 then 1 else 0)"
proof -
  let ?r = "n mod c"
  have r: "0 \<le> ?r" "?r < c" using assms by simp_all
  have e: "n + 1 = (?r + 1) + (n div c) * c" by simp
  have d: "(n + 1) div c = n div c + (?r + 1) div c"
    using assms by (subst e) (simp only: div_mult_self1)
  have m: "(n + 1) mod c = (?r + 1) mod c"
    by (subst e) (simp only: mod_mult_self1)
  show ?thesis
  proof (cases "?r + 1 = c")
    case True
    then show ?thesis using d m assms by simp
  next
    case False
    with r have "?r + 1 < c" by simp
    then have "(?r + 1) div c = 0" "(?r + 1) mod c = ?r + 1" using r by simp_all
    then show ?thesis using d m r by simp
  qed
qed

lemma dvd_chain:
  "(y::int) mod 400 = 0 \<Longrightarrow> y mod 100 = 0"
  "(y::int) mod 100 = 0 \<Longrightarrow> y mod 4 = 0"
  by (simp_all add: mod_eq_0_iff_dvd dvd_trans [of _ 400 y] dvd_trans [of _ 100 y])

text \<open>A year has 365 days, and one more when it is a leap year.\<close>

lemma days_before_year_step:
  "days_before_year (y + 1) = days_before_year y + 365 + (if is_leap y then 1 else 0)"
proof -
  define q4 q100 q400
    where "q4 = (y - 1) div 4" and "q100 = (y - 1) div 100" and "q400 = (y - 1) div 400"
  have d4: "y div 4 = q4 + (if y mod 4 = 0 then 1 else 0)"
    using div_succ [of 4 "y - 1"] by (simp add: q4_def)
  have d100: "y div 100 = q100 + (if y mod 100 = 0 then 1 else 0)"
    using div_succ [of 100 "y - 1"] by (simp add: q100_def)
  have d400: "y div 400 = q400 + (if y mod 400 = 0 then 1 else 0)"
    using div_succ [of 400 "y - 1"] by (simp add: q400_def)
  have l: "days_before_year (y + 1) = y * 365 + y div 4 - y div 100 + y div 400"
    by (simp add: days_before_year_def Let_def)
  have r: "days_before_year y = (y - 1) * 365 + q4 - q100 + q400"
    by (simp add: days_before_year_def Let_def q4_def q100_def q400_def)
  consider (a) "y mod 4 \<noteq> 0" | (b) "y mod 4 = 0" "y mod 100 \<noteq> 0"
    | (c) "y mod 100 = 0" "y mod 400 \<noteq> 0" | (d) "y mod 400 = 0"
    by argo
  then show ?thesis
  proof cases
    case a
    with dvd_chain [of y] have "y mod 100 \<noteq> 0" "y mod 400 \<noteq> 0" by auto
    with a show ?thesis unfolding l r d4 d100 d400 is_leap_def by simp
  next
    case b
    with dvd_chain [of y] have "y mod 400 \<noteq> 0" by auto
    with b show ?thesis unfolding l r d4 d100 d400 is_leap_def by simp
  next
    case c
    with dvd_chain [of y] have "y mod 4 = 0" by auto
    with c show ?thesis unfolding l r d4 d100 d400 is_leap_def by simp
  next
    case d
    with dvd_chain [of y] have "y mod 4 = 0" "y mod 100 = 0" by auto
    with d show ?thesis unfolding l r d4 d100 d400 is_leap_def by simp
  qed
qed

lemma days_before_year_mono:
  assumes "y \<le> z"
  shows "days_before_year y \<le> days_before_year z"
  using assms
proof (induction z rule: int_ge_induct)
  case base
  show ?case by simp
next
  case (step i)
  then show ?case using days_before_year_step [of i] by (simp split: if_splits)
qed

lemma upto_1_12: "[1..12::int] = [1, 2, 3, 4, 5, 6, 7, 8, 9, 10, 11, 12]"
  by code_simp

lemma month_cases:
  assumes "1 \<le> (m::int)" "m \<le> 12"
  obtains "m = 1" | "m = 2" | "m = 3" | "m = 4" | "m = 5" | "m = 6"
        | "m = 7" | "m = 8" | "m = 9" | "m = 10" | "m = 11" | "m = 12"
proof -
  from assms have "m \<in> set [1..12]" by simp
  then show ?thesis unfolding upto_1_12 using that by auto
qed

text \<open>
  Stepping by one day moves the proleptic ordinal by one, so \<open>shift_days\<close> computes the date
  whose ordinal is the one Python's date arithmetic asks for.
\<close>

lemma prev_day_ordinal:
  assumes "valid_date d"
  shows "toordinal (prev_day d) = toordinal d - 1"
proof (cases "1 < day d")
  case True
  then show ?thesis by (simp add: prev_day_def toordinal_def)
next
  case False
  with assms have d1: "day d = 1" by (simp add: valid_date_def)
  from assms have m: "1 \<le> month d" "month d \<le> 12" by (simp_all add: valid_date_def)
  show ?thesis
  proof (cases "1 < month d")
    case True
    from m show ?thesis
      by (cases rule: month_cases)
         (use True d1 in \<open>simp_all add: prev_day_def toordinal_def days_before_month_def days_in_month_def\<close>)
  next
    case False
    with m have m1: "month d = 1" by simp
    show ?thesis
      using days_before_year_step [of "year d - 1"] d1 m1
      by (simp add: prev_day_def toordinal_def days_before_month_def)
  qed
qed

lemma next_day_ordinal:
  assumes "valid_date d"
  shows "toordinal (next_day d) = toordinal d + 1"
proof (cases "day d < days_in_month (year d) (month d)")
  case True
  then show ?thesis by (simp add: next_day_def toordinal_def)
next
  case False
  with assms have dl: "day d = days_in_month (year d) (month d)" by (simp add: valid_date_def)
  from assms have m: "1 \<le> month d" "month d \<le> 12" by (simp_all add: valid_date_def)
  show ?thesis
  proof (cases "month d < 12")
    case True
    from m show ?thesis
      by (cases rule: month_cases)
         (use True dl in \<open>simp_all add: next_day_def toordinal_def days_before_month_def days_in_month_def\<close>)
  next
    case False
    with m have m12: "month d = 12" by simp
    show ?thesis
      using days_before_year_step [of "year d"] dl m12
      by (simp add: next_day_def toordinal_def days_before_month_def days_in_month_def)
  qed
qed

lemma days_before_year_1: "days_before_year 1 = 0"
  by (simp add: days_before_year_def)

lemma days_before_year_10000: "days_before_year 10000 = 3652059"
  by (simp add: days_before_year_def)

lemma days_before_month_bounds:
  assumes "1 \<le> m" "m \<le> 12" "1 \<le> d" "d \<le> days_in_month y m"
  shows "1 \<le> days_before_month y m + d
         \<and> days_before_month y m + d \<le> 365 + (if is_leap y then 1 else 0)"
  using assms(1,2)
  by (cases rule: month_cases)
     (use assms(3,4) in \<open>simp_all add: days_before_month_def days_in_month_def split: if_splits\<close>)

lemma toordinal_bounds:
  assumes "valid_date d"
  shows "1 \<le> toordinal d" and "toordinal d \<le> MAXORDINAL"
proof -
  from assms have v: "1 \<le> year d" "year d \<le> 9999" "1 \<le> month d" "month d \<le> 12"
      "1 \<le> day d" "day d \<le> days_in_month (year d) (month d)"
    by (simp_all add: valid_date_def)
  have lo: "0 \<le> days_before_year (year d)"
    using days_before_year_mono [OF v(1)] by (simp add: days_before_year_1)
  have "days_before_year (year d + 1) \<le> days_before_year 10000"
    using v(2) by (intro days_before_year_mono) simp
  then have hi: "days_before_year (year d) + 365 + (if is_leap (year d) then 1 else 0) \<le> 3652059"
    by (simp only: days_before_year_step days_before_year_10000)
  show "1 \<le> toordinal d"
    using lo days_before_month_bounds [OF v(3-6)] by (simp add: toordinal_def)
  show "toordinal d \<le> MAXORDINAL"
    using hi days_before_month_bounds [OF v(3-6)]
    by (simp add: toordinal_def MAXORDINAL_def split: if_splits)
qed

lemma upto_0_6: "[0..6::int] = [0, 1, 2, 3, 4, 5, 6]"
  by code_simp

lemma week_cases:
  assumes "0 \<le> (k::int)" "k \<le> 6"
  obtains "k = 0" | "k = 1" | "k = 2" | "k = 3" | "k = 4" | "k = 5" | "k = 6"
proof -
  from assms have "k \<in> set [0..6]" by simp
  then show ?thesis unfolding upto_0_6 using that by auto
qed

text \<open>
  The day-by-day model of date arithmetic agrees with the ordinal arithmetic of
  \<^verbatim>\<open>datetime\<close>: whenever \<open>date_add_days\<close> returns, the result is a date of the calendar
  whose proleptic ordinal is the ordinal of the argument plus the number of days.
\<close>

lemma days_in_month_ge: "28 \<le> days_in_month y m"
  by (simp add: days_in_month_def)

lemma prev_day_valid:
  assumes "valid_date d" "1 < toordinal d"
  shows "valid_date (prev_day d)"
proof (cases "1 < day d")
  case True
  with assms(1) show ?thesis by (simp add: prev_day_def valid_date_def)
next
  case False
  with assms(1) have d1: "day d = 1" by (simp add: valid_date_def)
  show ?thesis
  proof (cases "1 < month d")
    case True
    with assms(1) days_in_month_ge [of "year d" "month d - 1"] False show ?thesis
      by (simp add: prev_day_def valid_date_def)
  next
    case False
    with assms(1) have m1: "month d = 1" by (simp add: valid_date_def)
    from assms(2) d1 m1 have "0 < days_before_year (year d)"
      by (simp add: toordinal_def days_before_month_def)
    with days_before_year_mono [of "year d" 1] have "1 < year d"
      by (cases "year d \<le> 1") (simp_all add: days_before_year_1)
    with assms(1) d1 m1 show ?thesis
      by (simp add: prev_day_def valid_date_def days_in_month_def)
  qed
qed

lemma next_day_valid:
  assumes "valid_date d" "toordinal d < MAXORDINAL"
  shows "valid_date (next_day d)"
proof (cases "day d < days_in_month (year d) (month d)")
  case True
  with assms(1) show ?thesis by (simp add: next_day_def valid_date_def)
next
  case False
  with assms(1) have dl: "day d = days_in_month (year d) (month d)" by (simp add: valid_date_def)
  show ?thesis
  proof (cases "month d < 12")
    case True
    with assms(1) days_in_month_ge [of "year d" "month d + 1"] False show ?thesis
      by (simp add: next_day_def valid_date_def)
  next
    case False
    with assms(1) have m12: "month d = 12" by (simp add: valid_date_def)
    from dl m12 have "toordinal d = days_before_year (year d + 1)"
      by (simp add: toordinal_def days_before_month_def days_in_month_def days_before_year_step)
    with assms(2) have "days_before_year (year d + 1) < days_before_year 10000"
      by (simp add: MAXORDINAL_def days_before_year_10000)
    with days_before_year_mono [of 10000 "year d + 1"] have "year d + 1 < 10000"
      by (cases "10000 \<le> year d + 1") simp_all
    with assms(1) dl m12 False show ?thesis
      by (simp add: next_day_def valid_date_def days_in_month_def)
  qed
qed

lemma shift_prev_ordinal:
  assumes "valid_date d" "int k < toordinal d"
  shows "valid_date (shift_days prev_day k d)
       \<and> toordinal (shift_days prev_day k d) = toordinal d - int k"
  using assms
proof (induction k arbitrary: d)
  case 0
  then show ?case by simp
next
  case (Suc k)
  from Suc.prems have v: "valid_date (prev_day d)" by (intro prev_day_valid) simp_all
  from Suc.prems have o: "toordinal (prev_day d) = toordinal d - 1" by (intro prev_day_ordinal)
  from Suc.prems o have "int k < toordinal (prev_day d)" by simp
  from Suc.IH [OF v this] o show ?case by simp
qed

lemma shift_next_ordinal:
  assumes "valid_date d" "toordinal d + int k \<le> MAXORDINAL"
  shows "valid_date (shift_days next_day k d)
       \<and> toordinal (shift_days next_day k d) = toordinal d + int k"
  using assms
proof (induction k arbitrary: d)
  case 0
  then show ?case by simp
next
  case (Suc k)
  from Suc.prems have v: "valid_date (next_day d)" by (intro next_day_valid) simp_all
  from Suc.prems have o: "toordinal (next_day d) = toordinal d + 1" by (intro next_day_ordinal)
  from Suc.prems o have "toordinal (next_day d) + int k \<le> MAXORDINAL" by simp
  from Suc.IH [OF v this] o show ?case by simp
qed

lemma date_add_days_ordinal:
  assumes "valid_date d" "date_add_days d k = Inr r"
  shows "valid_date r \<and> toordinal r = toordinal d + k"
proof -
  from assms(2) have n: "1 \<le> toordinal d + k" "toordinal d + k \<le> MAXORDINAL"
    by (simp_all add: date_add_days_def Let_def split: if_splits)
  show ?thesis
  proof (cases "0 \<le> k")
    case True
    with assms(2) n have r: "r = shift_days next_day (nat k) d"
      by (simp add: date_add_days_def Let_def)
    from True n have "toordinal d + int (nat k) \<le> MAXORDINAL" by simp
    from shift_next_ordinal [OF assms(1) this] True r show ?thesis by simp
  next
    case False
    with assms(2) n have r: "r = shift_days prev_day (nat (- k)) d"
      by (simp add: date_add_days_def Let_def)
    from False n have "int (nat (- k)) < toordinal d" by simp
    from shift_prev_ordinal [OF assms(1) this] False r show ?thesis by simp
  qed
qed

lemma days_before_next_month:
  assumes "1 \<le> m" "m \<le> 11"
  shows "days_before_month y (m + 1) = days_before_month y m + days_in_month y m"
proof -
  from assms(2) have "m \<le> 12" by simp
  with assms(1) show ?thesis
    by (cases rule: month_cases)
       (use assms(2) in \<open>simp_all add: days_before_month_def days_in_month_def\<close>)
qed

lemma days_before_month_mono:
  assumes "1 \<le> m" "m < n" "n \<le> 12"
  shows "days_before_month y m + days_in_month y m \<le> days_before_month y n"
proof -
  have "m + 1 \<le> n" using assms(2) by simp
  then have "n \<le> 12 \<longrightarrow> days_before_month y (m + 1) \<le> days_before_month y n"
  proof (induction n rule: int_ge_induct)
    case base
    show ?case by simp
  next
    case (step i)
    show ?case
    proof
      assume i: "i + 1 \<le> 12"
      with step assms(1) have "days_before_month y (i + 1)
                                 = days_before_month y i + days_in_month y i"
        by (intro days_before_next_month) simp_all
      with step i days_in_month_ge [of y i] show "days_before_month y (m + 1)
                                                    \<le> days_before_month y (i + 1)"
        by simp
    qed
  qed
  with assms show ?thesis by (simp add: days_before_next_month)
qed

text \<open>Earlier dates have smaller ordinals, so a date of the calendar is determined by its ordinal.\<close>

lemma toordinal_strict_mono:
  assumes "valid_date a" "valid_date b" "date_less a b"
  shows "toordinal a < toordinal b"
proof -
  from assms(1) have va: "1 \<le> month a" "month a \<le> 12" "1 \<le> day a"
      "day a \<le> days_in_month (year a) (month a)"
    by (simp_all add: valid_date_def)
  from assms(2) have vb: "1 \<le> month b" "month b \<le> 12" "1 \<le> day b"
      "day b \<le> days_in_month (year b) (month b)"
    by (simp_all add: valid_date_def)
  from assms(3) consider (y) "year a < year b"
    | (m) "year a = year b" "month a < month b"
    | (d) "year a = year b" "month a = month b" "day a < day b"
    by (auto simp add: date_less_def)
  then show ?thesis
  proof cases
    case y
    have "toordinal a \<le> days_before_year (year a + 1)"
      using days_before_month_bounds [OF va]
      by (simp add: toordinal_def days_before_year_step)
    also have "\<dots> \<le> days_before_year (year b)"
      using y by (intro days_before_year_mono) simp
    also have "\<dots> < toordinal b"
      using days_before_month_bounds [OF vb] by (simp add: toordinal_def)
    finally show ?thesis .
  next
    case m
    from days_before_month_mono [OF va(1) m(2) vb(2), of "year a"] va(4) vb(3) m(1)
    show ?thesis by (simp add: toordinal_def)
  next
    case d
    then show ?thesis by (simp add: toordinal_def)
  qed
qed

lemma toordinal_inject:
  assumes "valid_date a" "valid_date b" "toordinal a = toordinal b"
  shows "a = b"
proof (rule ccontr)
  assume "a \<noteq> b"
  then have "date_less a b \<or> date_less b a"
    by (auto simp add: date_less_def intro: date.equality)
  with toordinal_strict_mono [OF assms(1,2)] toordinal_strict_mono [OF assms(2,1)] assms(3)
  show False by auto
qed

section \<open>What the Advent computation returns\<close>

lemma back_from_christmas:
  assumes "0 \<le> k" "k \<le> 6"
  shows "shift_days prev_day (nat k) \<lparr>year = Y, month = 12, day = 25\<rparr>
           = \<lparr>year = Y, month = 12, day = 25 - k\<rparr>"
  using assms
  by (cases rule: week_cases) (simp_all add: eval_nat_numeral prev_day_def)

lemma back_three_weeks:
  assumes "0 \<le> k" "k \<le> 6"
  shows "shift_days prev_day 21 \<lparr>year = Y, month = 12, day = 25 - k\<rparr>
           = (if k \<le> 3 then \<lparr>year = Y, month = 12, day = 4 - k\<rparr>
              else \<lparr>year = Y, month = 11, day = 34 - k\<rparr>)"
  using assms
  by (cases rule: week_cases) (simp_all add: eval_nat_numeral prev_day_def days_in_month_def)

lemma first_sunday_of_advent_eq:
  assumes "1 \<le> Y" "Y \<le> 9999"
  defines "k \<equiv> (weekday \<lparr>year = Y, month = 12, day = 25\<rparr> + 1) mod 7"
  shows "first_sunday_of_advent Y
           = Inr (if k \<le> 3 then \<lparr>year = Y, month = 12, day = 4 - k\<rparr>
                  else \<lparr>year = Y, month = 11, day = 34 - k\<rparr>)"
proof -
  let ?c = "\<lparr>year = Y, month = 12, day = 25\<rparr>"
  have v: "valid_date ?c"
    using assms(1,2) by (simp add: valid_date_def days_in_month_def)
  have k: "0 \<le> k" "k \<le> 6" by (simp_all add: k_def)
  have oc: "359 \<le> toordinal ?c"
    using days_before_year_mono [OF assms(1)]
    by (simp add: toordinal_def days_before_month_def days_before_year_1)
  have oc': "toordinal ?c \<le> MAXORDINAL" by (rule toordinal_bounds [OF v])
  have s1: "date_sub_days ?c k = Inr \<lparr>year = Y, month = 12, day = 25 - k\<rparr>"
  proof (cases "k = 0")
    case True
    then show ?thesis using oc oc'
      by (simp add: date_sub_days_def date_add_days_def Let_def)
  next
    case False
    with k have "\<not> 0 \<le> - k" by simp
    then show ?thesis using oc oc' k back_from_christmas [OF k, of Y]
      by (simp add: date_sub_days_def date_add_days_def Let_def)
  qed
  have o2: "toordinal \<lparr>year = Y, month = 12, day = 25 - k\<rparr> = toordinal ?c - k"
    by (simp add: toordinal_def)
  have s2: "date_sub_days \<lparr>year = Y, month = 12, day = 25 - k\<rparr> (3 * 7)
              = Inr (shift_days prev_day 21 \<lparr>year = Y, month = 12, day = 25 - k\<rparr>)"
    using oc oc' k unfolding date_sub_days_def date_add_days_def Let_def o2
    by simp
  show ?thesis
    unfolding first_sunday_of_advent_def date_new_def Let_def
    using v s1 s2 back_three_weeks [OF k, of Y]
    by (simp add: k_def)
qed

lemma first_sunday_of_advent_year:
  assumes "1 \<le> Y" "Y \<le> 9999" "first_sunday_of_advent Y = Inr a"
  shows "year a = Y"
  using first_sunday_of_advent_eq [OF assms(1,2)] assms(3)
  by (auto split: if_splits)

text \<open>
  The date the code returns is always a Sunday, and it lies between November 28 and
  December 4: when December 25 is itself a Sunday no day is walked back, and three weeks
  before it is December 4.
\<close>

lemma first_sunday_of_advent_range:
  assumes "1 \<le> Y" "Y \<le> 9999"
  shows "\<exists>a. first_sunday_of_advent Y = Inr a \<and> valid_date a \<and> weekday a = 6
             \<and> date_le \<lparr>year = Y, month = 11, day = 28\<rparr> a
             \<and> date_le a \<lparr>year = Y, month = 12, day = 4\<rparr>"
proof -
  define k where "k = (weekday \<lparr>year = Y, month = 12, day = 25\<rparr> + 1) mod 7"
  define c where "c = toordinal \<lparr>year = Y, month = 12, day = 25\<rparr>"
  have k: "0 \<le> k" "k \<le> 6" by (simp_all add: k_def)
  have kc: "k = c mod 7"
    by (simp add: k_def weekday_def c_def mod_simps)
  have "(c - c mod 7) mod 7 = 0"
    by (simp add: minus_mod_eq_mult_div)
  then have m: "(c - k - 15) mod 7 = 6"
    unfolding kc by presburger
  let ?a = "if k \<le> 3 then \<lparr>year = Y, month = 12, day = 4 - k\<rparr>
            else \<lparr>year = Y, month = 11, day = 34 - k\<rparr>"
  have e: "first_sunday_of_advent Y = Inr ?a"
    using first_sunday_of_advent_eq [OF assms] by (simp add: k_def)
  have o: "toordinal ?a = c - k - 21"
    by (simp add: toordinal_def c_def days_before_month_def)
  have w: "weekday ?a = 6"
    unfolding weekday_def o using m by (simp add: algebra_simps)
  have va: "valid_date ?a"
    using assms k by (simp add: valid_date_def days_in_month_def)
  have r: "date_le \<lparr>year = Y, month = 11, day = 28\<rparr> ?a"
      "date_le ?a \<lparr>year = Y, month = 12, day = 4\<rparr>"
    using k by (auto simp add: date_le_def date_less_def)
  from e w va r show ?thesis by blast
qed

lemma first_sunday_of_advent_Inr_year:
  assumes "first_sunday_of_advent Y = Inr a"
  shows "1 \<le> Y \<and> Y \<le> 9999 \<and> year a = Y"
proof -
  have "valid_date \<lparr>year = Y, month = 12, day = 25\<rparr>"
    using assms by (auto simp add: first_sunday_of_advent_def date_new_def Let_def split: if_splits)
  then have "1 \<le> Y" "Y \<le> 9999" by (simp_all add: valid_date_def)
  with assms first_sunday_of_advent_year show ?thesis by blast
qed

lemma date_less_not_le: "date_less a b \<Longrightarrow> \<not> date_le b a"
  by (auto simp add: date_le_def date_less_def)

lemma liturgical_year_span:
  assumes "first_sunday_of_advent Y = Inr a" "first_sunday_of_advent (Y + 1) = Inr b"
    and "date_le a D" "date_less D b"
  shows "liturgical_year D = Y"
proof -
  from first_sunday_of_advent_Inr_year [OF assms(1)] have ya: "year a = Y" by simp
  from first_sunday_of_advent_Inr_year [OF assms(2)] have yb: "year b = Y + 1" by simp
  from assms(3) ya have lo: "Y \<le> year D" by (auto simp add: date_le_def date_less_def)
  from assms(4) yb have hi: "year D \<le> Y + 1" by (auto simp add: date_less_def)
  from lo hi consider "year D = Y" | "year D = Y + 1" by linarith
  then show ?thesis
  proof cases
    case 1
    with assms(1,3) show ?thesis by (simp add: liturgical_year_def)
  next
    case 2
    with assms(2) date_less_not_le [OF assms(4)] show ?thesis
      by (simp add: liturgical_year_def)
  qed
qed

lemma mod3_cases: "(n::int) mod 3 = 0 \<or> n mod 3 = 1 \<or> n mod 3 = 2"
  by presburger

lemma cycles_values:
  assumes "valid_date D"
  shows "calculate_rcl_year D
           = Inr (if liturgical_year D mod 3 = 0 then ''A''
                  else if liturgical_year D mod 3 = 1 then ''B'' else ''C'')"
    and "calculate_lectionary_year D
           = Inr (if odd (liturgical_year D) then ''Year One'' else ''Year Two'')"
proof -
  from assms have y: "1 \<le> year D" "year D \<le> 9999" by (simp_all add: valid_date_def)
  from first_sunday_of_advent_range [OF y]
  obtain a where a: "first_sunday_of_advent (year D) = Inr a" by blast
  define L where "L = (if date_le a D then year D else year D - 1)"
  have l: "liturgical_year D = L" by (simp add: liturgical_year_def a L_def)
  show "calculate_rcl_year D
          = Inr (if liturgical_year D mod 3 = 0 then ''A''
                 else if liturgical_year D mod 3 = 1 then ''B'' else ''C'')"
    unfolding l using mod3_cases [of L]
    by (auto simp add: calculate_rcl_year_def a L_def Let_def)
  show "calculate_lectionary_year D
          = Inr (if odd (liturgical_year D) then ''Year One'' else ''Year Two'')"
    unfolding l
    by (simp add: calculate_lectionary_year_def a L_def Let_def odd_iff_mod_2_eq_one)
qed

lemma cycles_total:
  assumes "valid_date D"
  shows "\<exists>r l. calculate_rcl_year D = Inr r \<and> calculate_lectionary_year D = Inr l"
  using cycles_values [OF assms] by blast

section \<open>Claims about the calendar computations\<close>

text \<open>
  C1 (as amended). For every calendar date \<open>D\<close>, with \<open>L\<close> the liturgical year of \<open>D\<close>
  (the calendar year when \<open>D\<close> is on or after \<open>first_sunday_of_advent\<close> of that year, the year
  before otherwise), \<open>calculate_rcl_year\<close> returns the letter A, B or C for \<open>L mod 3\<close> being
  0, 1 or 2, and \<open>calculate_lectionary_year\<close> returns the label \<^verbatim>\<open>Year One\<close> when \<open>L\<close> is odd
  and \<^verbatim>\<open>Year Two\<close> when \<open>L\<close> is even. Every date from the Advent Sunday computed for a year
  \<open>Y\<close> up to the day before the one computed for \<open>Y + 1\<close> has liturgical year \<open>Y\<close>, and
  so the same two cycle values.
\<close>

theorem cycles_follow_liturgical_year:
  assumes "valid_date D"
  shows "calculate_rcl_year D
           = Inr (if liturgical_year D mod 3 = 0 then ''A''
                  else if liturgical_year D mod 3 = 1 then ''B'' else ''C'')
       \<and> calculate_lectionary_year D
           = Inr (if odd (liturgical_year D) then ''Year One'' else ''Year Two'')
       \<and> (\<forall>Y a b. first_sunday_of_advent Y = Inr a \<and> first_sunday_of_advent (Y + 1) = Inr b
                    \<and> date_le a D \<and> date_less D b
                 \<longrightarrow> liturgical_year D = Y)"
  using cycles_values [OF assms] liturgical_year_span by blast

theorem cycles_follow_liturgical_year_witness:
  "valid_date \<lparr>year = 2026, month = 1, day = 25\<rparr>
   \<and> first_sunday_of_advent 2025 = Inr \<lparr>year = 2025, month = 11, day = 30\<rparr>
   \<and> first_sunday_of_advent (2025 + 1) = Inr \<lparr>year = 2026, month = 11, day = 29\<rparr>
   \<and> date_le \<lparr>year = 2025, month = 11, day = 30\<rparr> \<lparr>year = 2026, month = 1, day = 25\<rparr>
   \<and> date_less \<lparr>year = 2026, month = 1, day = 25\<rparr> \<lparr>year = 2026, month = 11, day = 29\<rparr>
   \<and> liturgical_year \<lparr>year = 2026, month = 1, day = 25\<rparr> = 2025
   \<and> calculate_rcl_year \<lparr>year = 2026, month = 1, day = 25\<rparr> = Inr ''A''
   \<and> calculate_lectionary_year \<lparr>year = 2026, month = 1, day = 25\<rparr> = Inr ''Year One''"
proof -
  let ?D = "\<lparr>year = 2026, month = 1, day = 25\<rparr>"
  have v: "valid_date ?D" by (simp add: valid_date_def days_in_month_def)
  have a: "first_sunday_of_advent 2025 = Inr \<lparr>year = 2025, month = 11, day = 30\<rparr>"
    by code_simp
  have b: "first_sunday_of_advent (2025 + 1) = Inr \<lparr>year = 2026, month = 11, day = 29\<rparr>"
    by code_simp
  have le: "date_le \<lparr>year = 2025, month = 11, day = 30\<rparr> ?D"
    by (simp add: date_le_def date_less_def)
  have less: "date_less ?D \<lparr>year = 2026, month = 11, day = 29\<rparr>"
    by (simp add: date_less_def)
  note c = cycles_follow_liturgical_year [OF v]
  from c a b le less have L: "liturgical_year ?D = 2025" by blast
  from c have "calculate_rcl_year ?D = Inr ''A''"
    and "calculate_lectionary_year ?D = Inr ''Year One''"
    unfolding L by simp_all
  with v a b le less L show ?thesis by blast
qed

text \<open>
  C1 as written names the daily-office labels \<^verbatim>\<open>One\<close> and \<^verbatim>\<open>Two\<close>. On
  25 January 2026 the liturgical year is 2025, which is odd, and the function returns
  \<^verbatim>\<open>Year One\<close>.
\<close>

theorem lectionary_label_counterexample:
  "odd (liturgical_year \<lparr>year = 2026, month = 1, day = 25\<rparr>)
   \<and> calculate_lectionary_year \<lparr>year = 2026, month = 1, day = 25\<rparr> = Inr ''Year One''
   \<and> calculate_lectionary_year \<lparr>year = 2026, month = 1, day = 25\<rparr> \<noteq> Inr ''One''"
  by code_simp

lemma easter_ok_range: "list_all easter_ok [1900..2200]"
  by code_simp

text \<open>
  C2. For every year from 1900 to 2200, \<open>computus\<close> returns a date of that year between
  March 22 and April 25 inclusive, and that date is a Sunday.
\<close>

theorem computus_easter_sunday:
  assumes "1900 \<le> Y" "Y \<le> 2200"
  shows "\<exists>d. computus Y = Inr d \<and> year d = Y
             \<and> date_le \<lparr>year = Y, month = 3, day = 22\<rparr> d
             \<and> date_le d \<lparr>year = Y, month = 4, day = 25\<rparr>
             \<and> weekday d = 6"
proof -
  from assms have "Y \<in> set [1900..2200]" unfolding set_upto by simp
  with easter_ok_range have "easter_ok Y" unfolding list_all_iff by blast
  then show ?thesis by (auto simp add: easter_ok_def split: sum.splits)
qed

theorem computus_easter_sunday_witness:
  "(1900::int) \<le> 2026 \<and> (2026::int) \<le> 2200
   \<and> computus 2026 = Inr \<lparr>year = 2026, month = 4, day = 5\<rparr>
   \<and> date_le \<lparr>year = 2026, month = 3, day = 22\<rparr> \<lparr>year = 2026, month = 4, day = 5\<rparr>
   \<and> date_le \<lparr>year = 2026, month = 4, day = 5\<rparr> \<lparr>year = 2026, month = 4, day = 25\<rparr>
   \<and> weekday \<lparr>year = 2026, month = 4, day = 5\<rparr> = 6"
proof -
  have e: "computus 2026 = Inr \<lparr>year = 2026, month = 4, day = 5\<rparr>"
    by code_simp
  from computus_easter_sunday [of 2026] e show ?thesis by simp
qed

text \<open>
  C3. The claim places the returned date between November 27 and December 3. In 2022
  December 25 is a Sunday; the function then walks back no day at all and returns
  December 4, a week after the first Sunday of Advent of that year (November 27).
\<close>

theorem first_sunday_of_advent_2022:
  "weekday \<lparr>year = 2022, month = 12, day = 25\<rparr> = 6
   \<and> first_sunday_of_advent 2022 = Inr \<lparr>year = 2022, month = 12, day = 4\<rparr>
   \<and> \<not> date_le \<lparr>year = 2022, month = 12, day = 4\<rparr> \<lparr>year = 2022, month = 12, day = 3\<rparr>"
  by code_simp

section \<open>Easter never fails, and neither does the built-in season calculator\<close>

lemma easter_month_day:
  fixes v :: int
  assumes "114 \<le> v" "v \<le> 148"
  shows "(v div 31 = 3 \<and> 22 \<le> v mod 31 + 1 \<and> v mod 31 + 1 \<le> 31)
       \<or> (v div 31 = 4 \<and> 1 \<le> v mod 31 + 1 \<and> v mod 31 + 1 \<le> 25)"
proof (cases "v < 124")
  case True
  have "v = (v - 93) + 3 * 31" by simp
  then have "v div 31 = (v - 93) div 31 + 3" "v mod 31 = (v - 93) mod 31"
    by (metis div_mult_self1 add.commute zero_neq_numeral, metis mod_mult_self1)
  with True assms show ?thesis by simp
next
  case False
  have "v = (v - 124) + 4 * 31" by simp
  then have "v div 31 = (v - 124) div 31 + 4" "v mod 31 = (v - 124) mod 31"
    by (metis div_mult_self1 add.commute zero_neq_numeral, metis mod_mult_self1)
  with False assms show ?thesis by simp
qed

lemma computus_total:
  assumes "1 \<le> Y" "Y \<le> 9999"
  shows "\<exists>e. computus Y = Inr e \<and> valid_date e \<and> year e = Y \<and> (month e = 3 \<or> month e = 4)"
proof -
  define a where "a = Y mod 19"
  define b where "b = Y div 100"
  define h where "h = (19 * a + b - b div 4 - (b - (b + 8) div 25 + 1) div 3 + 15) mod 30"
  define l where "l = (32 + 2 * (b mod 4) + 2 * (Y mod 100 div 4) - h - Y mod 100 mod 4) mod 7"
  define x where "x = a + 11 * h + 22 * l"
  define m where "m = x div 451"
  define v where "v = h + l - 7 * m + 114"
  have c: "computus Y = date_new Y (v div 31) (v mod 31 + 1)"
    unfolding computus_def Let_def v_def m_def x_def l_def h_def b_def a_def
    by (rule refl)
  have ra: "0 \<le> a" "a \<le> 18" by (simp_all add: a_def)
  have rh: "0 \<le> h" "h \<le> 29" by (simp_all add: h_def)
  have rl: "0 \<le> l" "l \<le> 6" by (simp_all add: l_def)
  have rx: "0 \<le> x" "x < 902" using ra rh rl by (simp_all add: x_def)
  have rv: "114 \<le> v \<and> v \<le> 148"
  proof (cases "x < 451")
    case True
    with rx have "m = 0" by (simp add: m_def)
    moreover have "h + l \<le> 34" using True ra rh rl by (simp add: x_def)
    ultimately show ?thesis using rh rl by (simp add: v_def)
  next
    case False
    have "x = (x - 451) + 1 * 451" by simp
    then have "x div 451 = (x - 451) div 451 + 1"
      by (metis div_mult_self1 add.commute zero_neq_numeral)
    with False rx have "m = 1" by (simp add: m_def)
    moreover have "34 \<le> h + l" using False ra rh rl by (simp add: x_def)
    ultimately show ?thesis using rh rl by (simp add: v_def)
  qed
  from easter_month_day [of v] rv
  have "valid_date \<lparr>year = Y, month = v div 31, day = v mod 31 + 1\<rparr>"
    using assms by (auto simp add: valid_date_def days_in_month_def)
  with c easter_month_day [of v] rv show ?thesis
    by (auto simp add: date_new_def Let_def)
qed

lemma builtin_season_total:
  assumes "valid_date D"
  shows "\<exists>s. builtin_season D = Inr s"
proof -
  from assms have y: "1 \<le> year D" "year D \<le> 9999" by (simp_all add: valid_date_def)
  from computus_total [OF y] obtain e
    where e: "computus (year D) = Inr e" "valid_date e" "year e = year D"
      "month e = 3 \<or> month e = 4"
    by blast
  from e(2) have de: "1 \<le> day e" "day e \<le> 31"
    by (auto simp add: valid_date_def days_in_month_def split: if_splits)
  have lo: "0 \<le> days_before_year (year e)"
    using days_before_year_mono [of 1 "year e"] y e(3) by (simp add: days_before_year_1)
  have "days_before_year (year e + 1) \<le> days_before_year 10000"
    using y e(3) by (intro days_before_year_mono) simp
  then have hi: "days_before_year (year e) + 365 \<le> 3652059"
    by (simp add: days_before_year_step days_before_year_10000 split: if_splits)
  have m: "59 \<le> days_before_month (year e) (month e)" "days_before_month (year e) (month e) \<le> 91"
    using e(4) by (auto simp add: days_before_month_def)
  have o: "47 \<le> toordinal e" "toordinal e + 49 \<le> MAXORDINAL"
    using lo hi m de by (simp_all add: toordinal_def MAXORDINAL_def)
  have o': "toordinal e \<le> MAXORDINAL" using o(2) by simp
  have s: "\<exists>x. date_sub_days e 46 = Inr x"
    using o o' by (simp add: date_sub_days_def date_add_days_def Let_def)
  have t: "\<exists>x. date_add_days e 49 = Inr x"
    using o by (simp add: date_add_days_def Let_def)
  from first_sunday_of_advent_range [OF y]
  obtain adv where adv: "first_sunday_of_advent (year D) = Inr adv" by blast
  have n1: "\<exists>x. date_new (year D) 1 6 = Inr x"
    using y by (simp add: date_new_def Let_def valid_date_def days_in_month_def)
  have n2: "\<exists>x. date_new (year D) 12 25 = Inr x"
    using y by (simp add: date_new_def Let_def valid_date_def days_in_month_def)
  from s t n1 n2 obtain x1 x2 x3 x4
    where "date_sub_days e 46 = Inr x1" "date_add_days e 49 = Inr x2"
      "date_new (year D) 1 6 = Inr x3" "date_new (year D) 12 25 = Inr x4"
    by blast
  with e(1) adv show ?thesis
    by (simp add: builtin_season_def)
qed

lemma calendar_base_total:
  assumes "valid_date D"
  shows "\<exists>r l e. calculate_rcl_year D = Inr r \<and> calculate_lectionary_year D = Inr l
                 \<and> computus (year D) = Inr e"
proof -
  from assms have y: "1 \<le> year D" "year D \<le> 9999" by (simp_all add: valid_date_def)
  from computus_total [OF y] obtain e where "computus (year D) = Inr e" by blast
  with cycles_total [OF assms] show ?thesis by blast
qed

lemma builtin_season_late_december:
  assumes "valid_date D" "month D = 12" "25 \<le> day D"
  shows "builtin_season D = Inr ''Advent''"
proof -
  from assms(1) have y: "1 \<le> year D" "year D \<le> 9999" by (simp_all add: valid_date_def)
  from first_sunday_of_advent_range [OF y] obtain a
    where a: "first_sunday_of_advent (year D) = Inr a"
      and le: "date_le a \<lparr>year = year D, month = 12, day = 4\<rparr>"
    by blast
  from le assms(2,3) have "date_le a D"
    by (auto simp add: date_le_def date_less_def)
  with a builtin_season_total [OF assms(1)] show ?thesis
    by (auto simp add: builtin_season_def split: sum.splits)
qed

lemma get_calendar_info_builtin:
  assumes "valid_date D"
    and "pkg = None
         \<or> (\<exists>f. pkg = Some f
               \<and> (f D = None
                  \<or> (\<exists>c e. f D = Some c
                        \<and> map_episcopal_name (cal_season c) (cal_weekno c) (cal_name c) = Inl e)))"
  shows "\<exists>r s. get_calendar_info pkg (DDate D) = Inr r \<and> builtin_season D = Inr s
               \<and> ci_season r = s \<and> ci_day_name r = s
               \<and> ci_colour r = dict_get COLOUR_MAP s ''Green'' \<and> ci_raw_calendar r = None"
proof -
  from calendar_base_total [OF assms(1)] obtain r l e
    where b: "calculate_rcl_year D = Inr r" "calculate_lectionary_year D = Inr l"
      "computus (year D) = Inr e"
    by blast
  from builtin_season_total [OF assms(1)] obtain s where s: "builtin_season D = Inr s" by blast
  from assms(2) b s show ?thesis
    by (auto simp add: get_calendar_info_def to_date_def builtin_info_def Let_def)
qed

lemma map_episcopal_name_unmapped:
  assumes "s \<notin> fst ` set SEASON_MAP"
  shows "\<exists>n. map_episcopal_name s w c = Inr n"
proof -
  from assms have "map_of SEASON_MAP s = None" by (simp add: map_of_eq_None_iff)
  then have m: "dict_get SEASON_MAP s s = s" by (simp add: dict_get_def)
  from assms have "s \<noteq> ''Advent''" by (auto simp add: SEASON_MAP_def)
  then show ?thesis unfolding map_episcopal_name_def Let_def m by simp
qed

lemma get_calendar_info_unmapped:
  assumes "valid_date D" "f D = Some c" "cal_season c \<notin> fst ` set SEASON_MAP"
  shows "\<exists>r. get_calendar_info (Some f) (DDate D) = Inr r \<and> ci_season r = cal_season c
             \<and> ci_colour r = dict_get COLOUR_MAP (cal_season c) ''Green''
             \<and> ci_raw_calendar r = Some c"
proof -
  from calendar_base_total [OF assms(1)] obtain r l e
    where b: "calculate_rcl_year D = Inr r" "calculate_lectionary_year D = Inr l"
      "computus (year D) = Inr e"
    by blast
  from assms(3) have "map_of SEASON_MAP (cal_season c) = None" by (simp add: map_of_eq_None_iff)
  then have m: "dict_get SEASON_MAP (cal_season c) (cal_season c) = cal_season c"
    by (simp add: dict_get_def)
  from map_episcopal_name_unmapped [OF assms(3)] obtain n
    where n: "map_episcopal_name (cal_season c) (cal_weekno c) (cal_name c) = Inr n"
    by blast
  show ?thesis
    using b assms(2) n m
    by (simp add: get_calendar_info_def to_date_def Let_def)
qed

lemma epiphany_first_week:
  assumes "n \<noteq> ''Epiphany''" "n \<noteq> ''The Epiphany''"
  shows "map_episcopal_name ''Epiphany'' 1 n
           = Inr ''The First Sunday after the Epiphany: The Baptism of our Lord''"
proof -
  have m: "dict_get SEASON_MAP ''Epiphany'' ''Epiphany'' = ''The Season after the Epiphany''"
    by (simp add: dict_get_def SEASON_MAP_def)
  have e: "dict_get EPIPHANY_NAMES 1 x
             = ''The First Sunday after the Epiphany: The Baptism of our Lord''" for x
    by (simp add: dict_get_def EPIPHANY_NAMES_def)
  from assms have "\<not> (''Epiphany'' = n \<or> n = ''The Epiphany'')" by auto
  then show ?thesis unfolding map_episcopal_name_def Let_def m e by simp
qed

lemma epiphany_beyond_table:
  assumes "n \<noteq> ''Epiphany''" "n \<noteq> ''The Epiphany''" "w < 1 \<or> 9 < w"
  shows "map_episcopal_name ''Epiphany'' w n
           = Inr (''The Season after the Epiphany (Week '' @ str_of_int w @ '')'')"
proof -
  have m: "dict_get SEASON_MAP ''Epiphany'' ''Epiphany'' = ''The Season after the Epiphany''"
    by (simp add: dict_get_def SEASON_MAP_def)
  from assms(3) have "map_of EPIPHANY_NAMES w = None"
    by (auto simp add: EPIPHANY_NAMES_def)
  then have e: "dict_get EPIPHANY_NAMES w x = x" for x
    by (simp add: dict_get_def)
  from assms(1,2) have "\<not> (''Epiphany'' = n \<or> n = ''The Epiphany'')" by auto
  then show ?thesis unfolding map_episcopal_name_def Let_def m e by simp
qed

text \<open>
  C4. The claim gives December 25 to 31 to Christmas. The built-in calculator tests
  \<open>dt \<ge> advent\<close> first, so the branch for December 25 is never reached: without the
  package, \<open>get_calendar_info\<close> on \<^verbatim>\<open>2025-12-25\<close> answers Advent and Purple.
\<close>

theorem christmas_day_2025_builtin:
  "get_calendar_info None (DStr ''2025-12-25'')
     = Inr \<lparr>ci_date = ''2025-12-25'', ci_is_sunday = False, ci_rcl_year = ''A'',
            ci_lectionary_year = ''Year One'', ci_easter_date = ''2025-04-20'',
            ci_day_name = ''Advent'', ci_season = ''Advent'', ci_colour = ''Purple'',
            ci_raw_calendar = None\<rparr>"
  by code_simp

text \<open>
  C9 (as amended). When the package is missing, when its call raises, or when the name
  mapping raises on its answer, \<open>get_calendar_info\<close> builds the result from the built-in
  computation alone, and the day name of that result is the season name itself. When the package
  answers with a season that the season table does not know, the result is still built from the
  package's answer: the season is passed through unchanged and the colour is looked up with Green
  as the default. The positional mapping through the ordinal tables is what
  \<open>map_episcopal_name\<close> applies to the package's week number: week 1 of the Epiphany season
  gives the First Sunday after the Epiphany, and a week outside the table gives the generated
  \<^verbatim>\<open>(Week N)\<close> label.
\<close>

theorem calendar_info_paths:
  assumes "valid_date D"
  shows "((pkg = None
           \<or> (\<exists>f. pkg = Some f
                 \<and> (f D = None
                    \<or> (\<exists>c e. f D = Some c
                          \<and> map_episcopal_name (cal_season c) (cal_weekno c) (cal_name c) = Inl e))))
          \<longrightarrow> (\<exists>r s. get_calendar_info pkg (DDate D) = Inr r \<and> builtin_season D = Inr s
                     \<and> ci_season r = s \<and> ci_day_name r = s
                     \<and> ci_colour r = dict_get COLOUR_MAP s ''Green'' \<and> ci_raw_calendar r = None))
       \<and> (\<forall>f c. f D = Some c \<and> cal_season c \<notin> fst ` set SEASON_MAP
             \<longrightarrow> (\<exists>r. get_calendar_info (Some f) (DDate D) = Inr r \<and> ci_season r = cal_season c
                      \<and> ci_colour r = dict_get COLOUR_MAP (cal_season c) ''Green''
                      \<and> ci_raw_calendar r = Some c))
       \<and> (\<forall>n. n \<noteq> ''Epiphany'' \<and> n \<noteq> ''The Epiphany''
             \<longrightarrow> map_episcopal_name ''Epiphany'' 1 n
                   = Inr ''The First Sunday after the Epiphany: The Baptism of our Lord'')
       \<and> (\<forall>n w. n \<noteq> ''Epiphany'' \<and> n \<noteq> ''The Epiphany'' \<and> (w < 1 \<or> 9 < w)
             \<longrightarrow> map_episcopal_name ''Epiphany'' w n
                   = Inr (''The Season after the Epiphany (Week '' @ str_of_int w @ '')''))"
  using get_calendar_info_builtin [OF assms, of pkg] get_calendar_info_unmapped [OF assms]
    epiphany_first_week epiphany_beyond_table
  by blast

theorem calendar_info_paths_witness:
  "valid_date \<lparr>year = 2026, month = 1, day = 11\<rparr>
   \<and> (\<exists>r. get_calendar_info None (DDate \<lparr>year = 2026, month = 1, day = 11\<rparr>) = Inr r
          \<and> ci_season r = ''The Season after the Epiphany''
          \<and> ci_day_name r = ''The Season after the Epiphany''
          \<and> ci_colour r = ''Green'' \<and> ci_raw_calendar r = None)
   \<and> ''Trinity'' \<notin> fst ` set SEASON_MAP
   \<and> (\<exists>r. get_calendar_info (Some trinity_package)
              (DDate \<lparr>year = 2026, month = 1, day = 11\<rparr>) = Inr r
          \<and> ci_season r = ''Trinity'' \<and> ci_colour r = ''Green''
          \<and> ci_raw_calendar r
               = Some \<lparr>cal_season = ''Trinity'', cal_weekno = 3, cal_name = ''Trinity 3''\<rparr>)
   \<and> map_episcopal_name ''Epiphany'' 1 ''Baptism of Christ''
       = Inr ''The First Sunday after the Epiphany: The Baptism of our Lord''
   \<and> map_episcopal_name ''Epiphany'' 10 ''Epiphany 10''
       = Inr ''The Season after the Epiphany (Week 10)''"
proof -
  let ?D = "\<lparr>year = 2026, month = 1, day = 11\<rparr>"
  let ?c = "\<lparr>cal_season = ''Trinity'', cal_weekno = 3, cal_name = ''Trinity 3''\<rparr>"
  have v: "valid_date ?D" by (simp add: valid_date_def days_in_month_def)
  have s: "builtin_season ?D = Inr ''The Season after the Epiphany''" by code_simp
  have g: "dict_get COLOUR_MAP ''The Season after the Epiphany'' ''Green'' = ''Green''"
    by (simp add: dict_get_def COLOUR_MAP_def)
  have g': "dict_get COLOUR_MAP ''Trinity'' ''Green'' = ''Green''"
    by (simp add: dict_get_def COLOUR_MAP_def)
  have u: "''Trinity'' \<notin> fst ` set SEASON_MAP" by (simp add: SEASON_MAP_def)
  have w: "str_of_int 10 = ''10''" by code_simp
  note t = calendar_info_paths [OF v, of None]
  from t s g have 1: "\<exists>r. get_calendar_info None (DDate ?D) = Inr r
      \<and> ci_season r = ''The Season after the Epiphany''
      \<and> ci_day_name r = ''The Season after the Epiphany''
      \<and> ci_colour r = ''Green'' \<and> ci_raw_calendar r = None"
    by auto
  from t have "\<exists>r. get_calendar_info (Some trinity_package) (DDate ?D) = Inr r
      \<and> ci_season r = cal_season ?c
      \<and> ci_colour r = dict_get COLOUR_MAP (cal_season ?c) ''Green''
      \<and> ci_raw_calendar r = Some ?c"
    using u by (elim conjE allE [of _ trinity_package] allE [of _ ?c])
      (simp add: trinity_package_def)
  then have 2: "\<exists>r. get_calendar_info (Some trinity_package) (DDate ?D) = Inr r
      \<and> ci_season r = ''Trinity'' \<and> ci_colour r = ''Green'' \<and> ci_raw_calendar r = Some ?c"
    using g' by simp
  from t have 3: "map_episcopal_name ''Epiphany'' 1 ''Baptism of Christ''
       = Inr ''The First Sunday after the Epiphany: The Baptism of our Lord''"
    by simp
  from t have "map_episcopal_name ''Epiphany'' 10 ''Epiphany 10''
       = Inr (''The Season after the Epiphany (Week '' @ str_of_int 10 @ '')'')"
    by simp
  then have 4: "map_episcopal_name ''Epiphany'' 10 ''Epiphany 10''
       = Inr ''The Season after the Epiphany (Week 10)''"
    unfolding w by simp
  from v 1 u 2 3 4 show ?thesis by blast
qed

text \<open>
  C9 as written fails on both counts. 11 January 2026 is the first Sunday after the
  Epiphany; without the package the day name is the season name, which is no entry of the ordinal
  table. And a package answer with the unknown season \<^verbatim>\<open>Trinity\<close> is not replaced by the
  built-in computation, which places that day in the season after Pentecost.
\<close>

theorem calendar_info_fallback_counterexample:
  "get_calendar_info None (DStr ''2026-01-11'')
     = Inr \<lparr>ci_date = ''2026-01-11'', ci_is_sunday = True, ci_rcl_year = ''A'',
            ci_lectionary_year = ''Year One'', ci_easter_date = ''2026-04-05'',
            ci_day_name = ''The Season after the Epiphany'',
            ci_season = ''The Season after the Epiphany'', ci_colour = ''Green'',
            ci_raw_calendar = None\<rparr>
   \<and> ''The Season after the Epiphany'' \<notin> snd ` set EPIPHANY_NAMES
   \<and> get_calendar_info (Some trinity_package) (DStr ''2026-06-21'')
     = Inr \<lparr>ci_date = ''2026-06-21'', ci_is_sunday = True, ci_rcl_year = ''A'',
            ci_lectionary_year = ''Year One'', ci_easter_date = ''2026-04-05'',
            ci_day_name = ''Trinity 3'', ci_season = ''Trinity'', ci_colour = ''Green'',
            ci_raw_calendar
              = Some \<lparr>cal_season = ''Trinity'', cal_weekno = 3, cal_name = ''Trinity 3''\<rparr>\<rparr>
   \<and> builtin_season \<lparr>year = 2026, month = 6, day = 21\<rparr> = Inr ''The Season after Pentecost''"
  by code_simp

section \<open>The built-in lookup\<close>

lemma sublist_dropWhile_keep:
  assumes "p \<noteq> []" "\<not> P (hd p)" "sublist p s"
  shows "sublist p (dropWhile P s)"
proof -
  from assms(3) obtain a b where s: "s = a @ p @ b" by (auto simp add: sublist_def)
  from assms(1) have "takeWhile P (p @ b) = []"
    using assms(2) by (cases p) simp_all
  then have d: "dropWhile P (p @ b) = p @ b"
    by (metis takeWhile_dropWhile_id append_Nil)
  have "sublist p (dropWhile P (a @ p @ b))"
  proof (induction a)
    case Nil
    show ?case by (simp add: d)
  next
    case (Cons x a)
    show ?case
    proof (cases "P x")
      case True
      with Cons show ?thesis by simp
    next
      case False
      have "sublist p ((x # a) @ p @ b)" by (rule sublist_appendI)
      with False show ?thesis by simp
    qed
  qed
  with s show ?thesis by simp
qed

text \<open>
  Stripping the day name does not change which names occur in it, as long as the name does
  not begin or end with white space.
\<close>

lemma sublist_strip:
  assumes "p \<noteq> []" "\<not> is_space (hd p)" "\<not> is_space (last p)"
  shows "sublist p (strip s) \<longleftrightarrow> sublist p s"
proof
  assume "sublist p (strip s)"
  then have "sublist (rev p) (dropWhile is_space (rev (dropWhile is_space s)))"
    by (simp add: strip_def sublist_rev_right)
  then have "sublist (rev p) (rev (dropWhile is_space s))"
    using sublist_dropWhile sublist_order.order.trans by blast
  then have "sublist p (dropWhile is_space s)" by simp
  then show "sublist p s"
    using sublist_dropWhile sublist_order.order.trans by blast
next
  assume "sublist p s"
  with assms(1,2) have "sublist p (dropWhile is_space s)"
    by (rule sublist_dropWhile_keep)
  then have "sublist (rev p) (rev (dropWhile is_space s))" by simp
  moreover have "rev p \<noteq> []" "\<not> is_space (hd (rev p))"
    using assms(1,3) by (simp_all add: hd_rev)
  ultimately have "sublist (rev p) (dropWhile is_space (rev (dropWhile is_space s)))"
    by (intro sublist_dropWhile_keep)
  then show "sublist p (strip s)"
    by (simp add: strip_def sublist_rev_right)
qed

lemma exact_match_None:
  "exact_match n T = None \<longleftrightarrow> (\<forall>i<length T. lower (fst (T ! i)) \<noteq> n)"
proof (induction T)
  case Nil
  show ?case by simp
next
  case (Cons e T)
  obtain p r where e: "e = (p, r)" by (cases e)
  show ?case
    unfolding e using Cons.IH
    by (auto simp add: less_Suc_eq_0_disj)
qed

lemma exact_match_at:
  assumes "distinct (map (\<lambda>e. lower (fst e)) T)" "i < length T" "lower (fst (T ! i)) = n"
  shows "exact_match n T = Some (builtin_result (snd (T ! i)))"
  using assms
proof (induction T arbitrary: i)
  case Nil
  then show ?case by simp
next
  case (Cons e T)
  obtain p r where e: "e = (p, r)" by (cases e)
  show ?case
  proof (cases i)
    case 0
    with Cons.prems e show ?thesis by simp
  next
    case (Suc k)
    with Cons.prems have k: "k < length T" "lower (fst (T ! k)) = n" by simp_all
    then have "n \<in> set (map (\<lambda>e. lower (fst e)) T)"
      by (metis length_map nth_map nth_mem)
    with Cons.prems(1) e have "lower p \<noteq> n" by auto
    moreover from Cons.prems(1) have "distinct (map (\<lambda>e. lower (fst e)) T)" by simp
    ultimately show ?thesis
      using Cons.IH [OF _ k] e Suc by simp
  qed
qed

text \<open>
  The second loop, for any table and any starting values: either nothing in the table beats
  \<open>best_len\<close> and \<open>best_match\<close> comes back, or the answer is the entry of an index \<open>i\<close>
  whose name occurs in the day name and is longer than \<open>best_len\<close>, no name that occurs is
  longer, and none before \<open>i\<close> is as long.
\<close>

lemma partial_match_cases:
  "(partial_match n T bm bl = bm
      \<and> (\<forall>j<length T. sublist (lower (fst (T ! j))) n \<longrightarrow> length (fst (T ! j)) \<le> bl))
   \<or> (\<exists>i<length T.
         partial_match n T bm bl = Some (builtin_result (snd (T ! i)))
         \<and> sublist (lower (fst (T ! i))) n \<and> bl < length (fst (T ! i))
         \<and> (\<forall>j<length T. sublist (lower (fst (T ! j))) n \<longrightarrow>
               length (fst (T ! j)) \<le> length (fst (T ! i))
               \<and> (j < i \<longrightarrow> length (fst (T ! j)) < length (fst (T ! i)))))"
proof (induction T arbitrary: bm bl)
  case Nil
  show ?case by simp
next
  case (Cons e T)
  obtain p r where e: "e = (p, r)" by (cases e)
  let ?hit = "sublist (lower p) n \<and> bl < length p"
  show ?case
  proof (cases ?hit)
    case True
    then have step: "partial_match n (e # T) bm bl
                       = partial_match n T (Some (builtin_result r)) (length p)"
      by (simp add: e lower_def)
    from Cons.IH [of "Some (builtin_result r)" "length p"]
    show ?thesis
    proof (elim disjE conjE exE)
      assume a: "partial_match n T (Some (builtin_result r)) (length p) = Some (builtin_result r)"
        and b: "\<forall>j<length T. sublist (lower (fst (T ! j))) n \<longrightarrow> length (fst (T ! j)) \<le> length p"
      have "0 < length (e # T)" by simp
      moreover have "partial_match n (e # T) bm bl = Some (builtin_result (snd ((e # T) ! 0)))"
        using step a by (simp add: e)
      moreover have "sublist (lower (fst ((e # T) ! 0))) n \<and> bl < length (fst ((e # T) ! 0))"
        using True by (simp add: e)
      moreover have "\<forall>j<length (e # T). sublist (lower (fst ((e # T) ! j))) n \<longrightarrow>
               length (fst ((e # T) ! j)) \<le> length (fst ((e # T) ! 0))
               \<and> (j < 0 \<longrightarrow> length (fst ((e # T) ! j)) < length (fst ((e # T) ! 0)))"
        using b by (auto simp add: e less_Suc_eq_0_disj)
      ultimately show ?thesis by blast
    next
      fix i
      assume i: "i < length T"
        and a: "partial_match n T (Some (builtin_result r)) (length p)
                  = Some (builtin_result (snd (T ! i)))"
        and s: "sublist (lower (fst (T ! i))) n" and l: "length p < length (fst (T ! i))"
        and b: "\<forall>j<length T. sublist (lower (fst (T ! j))) n \<longrightarrow>
                  length (fst (T ! j)) \<le> length (fst (T ! i))
                  \<and> (j < i \<longrightarrow> length (fst (T ! j)) < length (fst (T ! i)))"
      have "Suc i < length (e # T)" using i by simp
      moreover have "partial_match n (e # T) bm bl = Some (builtin_result (snd ((e # T) ! Suc i)))"
        using step a by simp
      moreover have "sublist (lower (fst ((e # T) ! Suc i))) n \<and> bl < length (fst ((e # T) ! Suc i))"
        using s l True by simp
      moreover have "\<forall>j<length (e # T). sublist (lower (fst ((e # T) ! j))) n \<longrightarrow>
               length (fst ((e # T) ! j)) \<le> length (fst ((e # T) ! Suc i))
               \<and> (j < Suc i \<longrightarrow> length (fst ((e # T) ! j)) < length (fst ((e # T) ! Suc i)))"
        using b l by (auto simp add: e less_Suc_eq_0_disj)
      ultimately show ?thesis by blast
    qed
  next
    case False
    then have step: "partial_match n (e # T) bm bl = partial_match n T bm bl"
      by (auto simp add: e lower_def)
    from False have hd: "sublist (lower p) n \<longrightarrow> length p \<le> bl" by auto
    from Cons.IH [of bm bl]
    show ?thesis
    proof (elim disjE conjE exE)
      assume a: "partial_match n T bm bl = bm"
        and b: "\<forall>j<length T. sublist (lower (fst (T ! j))) n \<longrightarrow> length (fst (T ! j)) \<le> bl"
      have "partial_match n (e # T) bm bl = bm" using step a by simp
      moreover have "\<forall>j<length (e # T). sublist (lower (fst ((e # T) ! j))) n
                        \<longrightarrow> length (fst ((e # T) ! j)) \<le> bl"
        using b hd by (auto simp add: e less_Suc_eq_0_disj)
      ultimately show ?thesis by blast
    next
      fix i
      assume i: "i < length T"
        and a: "partial_match n T bm bl = Some (builtin_result (snd (T ! i)))"
        and s: "sublist (lower (fst (T ! i))) n" and l: "bl < length (fst (T ! i))"
        and b: "\<forall>j<length T. sublist (lower (fst (T ! j))) n \<longrightarrow>
                  length (fst (T ! j)) \<le> length (fst (T ! i))
                  \<and> (j < i \<longrightarrow> length (fst (T ! j)) < length (fst (T ! i)))"
      have "Suc i < length (e # T)" using i by simp
      moreover have "partial_match n (e # T) bm bl = Some (builtin_result (snd ((e # T) ! Suc i)))"
        using step a by simp
      moreover have "sublist (lower (fst ((e # T) ! Suc i))) n \<and> bl < length (fst ((e # T) ! Suc i))"
        using s l by simp
      moreover have "\<forall>j<length (e # T). sublist (lower (fst ((e # T) ! j))) n \<longrightarrow>
               length (fst ((e # T) ! j)) \<le> length (fst ((e # T) ! Suc i))
               \<and> (j < Suc i \<longrightarrow> length (fst ((e # T) ! j)) < length (fst ((e # T) ! Suc i)))"
        using b l hd by (auto simp add: e less_Suc_eq_0_disj)
      ultimately show ?thesis by blast
    qed
  qed
qed

lemma builtin_lowered:
  "map (\<lambda>e. lower (fst e)) BUILTIN_YEAR_A =
     [''the first sunday of advent'', ''the second sunday of advent'',
      ''the third sunday of advent'', ''the fourth sunday of advent'', ''christmas'',
      ''the epiphany'', ''the first sunday after the epiphany'',
      ''the second sunday after the epiphany'', ''the third sunday after the epiphany'',
      ''the fourth sunday after the epiphany'', ''the fifth sunday after the epiphany'',
      ''the sixth sunday after the epiphany'', ''the seventh sunday after the epiphany'',
      ''the last sunday after the epiphany'', ''the first sunday in lent'',
      ''the second sunday in lent'', ''the third sunday in lent'', ''the fourth sunday in lent'',
      ''the fifth sunday in lent'', ''palm sunday'', ''easter day'',
      ''the second sunday of easter'', ''the third sunday of easter'', ''the day of pentecost'',
      ''trinity sunday'']"
  by code_simp

lemma builtin_names_distinct: "distinct (map (\<lambda>e. lower (fst e)) BUILTIN_YEAR_A)"
  unfolding builtin_lowered by simp

lemma builtin_names_trimmed:
  "list_all (\<lambda>e. lower (fst e) \<noteq> [] \<and> \<not> is_space (hd (lower (fst e)))
                  \<and> \<not> is_space (last (lower (fst e)))) BUILTIN_YEAR_A"
proof -
  have "list_all (\<lambda>s. s \<noteq> [] \<and> \<not> is_space (hd s) \<and> \<not> is_space (last s))
          (map (\<lambda>e. lower (fst e)) BUILTIN_YEAR_A)"
    unfolding builtin_lowered by code_simp
  then show ?thesis by (simp add: list_all_iff)
qed

lemma builtin_sublist_strip:
  assumes "j < length BUILTIN_YEAR_A"
  shows "sublist (lower (fst (BUILTIN_YEAR_A ! j))) (strip s)
           \<longleftrightarrow> sublist (lower (fst (BUILTIN_YEAR_A ! j))) s"
proof -
  from assms have "BUILTIN_YEAR_A ! j \<in> set BUILTIN_YEAR_A" by simp
  with builtin_names_trimmed
  have "lower (fst (BUILTIN_YEAR_A ! j)) \<noteq> []"
    "\<not> is_space (hd (lower (fst (BUILTIN_YEAR_A ! j))))"
    "\<not> is_space (last (lower (fst (BUILTIN_YEAR_A ! j))))"
    unfolding list_all_iff by blast+
  then show ?thesis by (rule sublist_strip)
qed

lemma builtin_names_nonempty:
  assumes "j < length BUILTIN_YEAR_A"
  shows "0 < length (fst (BUILTIN_YEAR_A ! j))"
proof -
  from assms have "BUILTIN_YEAR_A ! j \<in> set BUILTIN_YEAR_A" by simp
  with builtin_names_trimmed have "lower (fst (BUILTIN_YEAR_A ! j)) \<noteq> []"
    unfolding list_all_iff by blast
  then show ?thesis by (simp add: lower_def)
qed

text \<open>
  C5. For a non-empty day name, with \<open>strip (lower day_name)\<close> the name compared:
  an entry of the built-in table whose lowered name equals it is the answer; when there is none,
  the answer is the entry of an index \<open>i\<close> whose lowered name occurs in the lowered day name,
  such that no name that occurs is longer and none before \<open>i\<close> is as long; and when no name
  occurs at all there is no answer.
\<close>

theorem lookup_builtin_longest_match:
  assumes "day_name \<noteq> []"
  shows "(\<forall>i<length BUILTIN_YEAR_A.
            lower (fst (BUILTIN_YEAR_A ! i)) = strip (lower day_name)
            \<longrightarrow> lookup_builtin day_name = Some (builtin_result (snd (BUILTIN_YEAR_A ! i))))
       \<and> ((\<forall>i<length BUILTIN_YEAR_A. lower (fst (BUILTIN_YEAR_A ! i)) \<noteq> strip (lower day_name))
          \<longrightarrow> ((\<forall>j<length BUILTIN_YEAR_A.
                    \<not> sublist (lower (fst (BUILTIN_YEAR_A ! j))) (lower day_name))
                 \<longrightarrow> lookup_builtin day_name = None)
             \<and> ((\<exists>j<length BUILTIN_YEAR_A.
                     sublist (lower (fst (BUILTIN_YEAR_A ! j))) (lower day_name))
                 \<longrightarrow> (\<exists>i<length BUILTIN_YEAR_A.
                         lookup_builtin day_name = Some (builtin_result (snd (BUILTIN_YEAR_A ! i)))
                         \<and> sublist (lower (fst (BUILTIN_YEAR_A ! i))) (lower day_name)
                         \<and> (\<forall>j<length BUILTIN_YEAR_A.
                               sublist (lower (fst (BUILTIN_YEAR_A ! j))) (lower day_name)
                               \<longrightarrow> length (fst (BUILTIN_YEAR_A ! j))
                                        \<le> length (fst (BUILTIN_YEAR_A ! i))
                                   \<and> (j < i \<longrightarrow> length (fst (BUILTIN_YEAR_A ! j))
                                                    < length (fst (BUILTIN_YEAR_A ! i)))))))"
proof (intro conjI allI impI)
  fix i
  assume "i < length BUILTIN_YEAR_A" "lower (fst (BUILTIN_YEAR_A ! i)) = strip (lower day_name)"
  then have "exact_match (strip (lower day_name)) BUILTIN_YEAR_A
               = Some (builtin_result (snd (BUILTIN_YEAR_A ! i)))"
    by (intro exact_match_at builtin_names_distinct)
  with assms show "lookup_builtin day_name = Some (builtin_result (snd (BUILTIN_YEAR_A ! i)))"
    by (simp add: lookup_builtin_def)
next
  assume "\<forall>i<length BUILTIN_YEAR_A. lower (fst (BUILTIN_YEAR_A ! i)) \<noteq> strip (lower day_name)"
  then have "exact_match (strip (lower day_name)) BUILTIN_YEAR_A = None"
    by (simp add: exact_match_None)
  with assms have l: "lookup_builtin day_name
                        = partial_match (strip (lower day_name)) BUILTIN_YEAR_A None 0"
    by (simp add: lookup_builtin_def)
  assume none: "\<forall>j<length BUILTIN_YEAR_A.
                  \<not> sublist (lower (fst (BUILTIN_YEAR_A ! j))) (lower day_name)"
  from partial_match_cases [of "strip (lower day_name)" BUILTIN_YEAR_A None 0]
  show "lookup_builtin day_name = None"
    unfolding l using none by (auto simp add: builtin_sublist_strip)
next
  assume "\<forall>i<length BUILTIN_YEAR_A. lower (fst (BUILTIN_YEAR_A ! i)) \<noteq> strip (lower day_name)"
  then have "exact_match (strip (lower day_name)) BUILTIN_YEAR_A = None"
    by (simp add: exact_match_None)
  with assms have l: "lookup_builtin day_name
                        = partial_match (strip (lower day_name)) BUILTIN_YEAR_A None 0"
    by (simp add: lookup_builtin_def)
  assume "\<exists>j<length BUILTIN_YEAR_A. sublist (lower (fst (BUILTIN_YEAR_A ! j))) (lower day_name)"
  then obtain j where j: "j < length BUILTIN_YEAR_A"
      "sublist (lower (fst (BUILTIN_YEAR_A ! j))) (strip (lower day_name))"
    by (auto simp add: builtin_sublist_strip)
  from partial_match_cases [of "strip (lower day_name)" BUILTIN_YEAR_A None 0]
  show "\<exists>i<length BUILTIN_YEAR_A.
          lookup_builtin day_name = Some (builtin_result (snd (BUILTIN_YEAR_A ! i)))
          \<and> sublist (lower (fst (BUILTIN_YEAR_A ! i))) (lower day_name)
          \<and> (\<forall>j<length BUILTIN_YEAR_A.
                sublist (lower (fst (BUILTIN_YEAR_A ! j))) (lower day_name)
                \<longrightarrow> length (fst (BUILTIN_YEAR_A ! j)) \<le> length (fst (BUILTIN_YEAR_A ! i))
                    \<and> (j < i \<longrightarrow> length (fst (BUILTIN_YEAR_A ! j))
                                     < length (fst (BUILTIN_YEAR_A ! i))))"
  proof (elim disjE conjE exE)
    assume "\<forall>j<length BUILTIN_YEAR_A.
              sublist (lower (fst (BUILTIN_YEAR_A ! j))) (strip (lower day_name))
              \<longrightarrow> length (fst (BUILTIN_YEAR_A ! j)) \<le> 0"
    with j builtin_names_nonempty [OF j(1)] have False by auto
    then show ?thesis ..
  next
    fix i
    assume "i < length BUILTIN_YEAR_A"
      and "partial_match (strip (lower day_name)) BUILTIN_YEAR_A None 0
             = Some (builtin_result (snd (BUILTIN_YEAR_A ! i)))"
      and "sublist (lower (fst (BUILTIN_YEAR_A ! i))) (strip (lower day_name))"
      and "\<forall>j<length BUILTIN_YEAR_A.
             sublist (lower (fst (BUILTIN_YEAR_A ! j))) (strip (lower day_name))
             \<longrightarrow> length (fst (BUILTIN_YEAR_A ! j)) \<le> length (fst (BUILTIN_YEAR_A ! i))
                 \<and> (j < i \<longrightarrow> length (fst (BUILTIN_YEAR_A ! j))
                                  < length (fst (BUILTIN_YEAR_A ! i)))"
    then show ?thesis
      unfolding l by (auto simp add: builtin_sublist_strip)
  qed
qed

theorem lookup_builtin_longest_match_witness:
  "''The First Sunday after the Epiphany: The Baptism of our Lord'' \<noteq> []
   \<and> exact_match (strip (lower ''The First Sunday after the Epiphany: The Baptism of our Lord''))
        BUILTIN_YEAR_A = None
   \<and> (5::nat) < length BUILTIN_YEAR_A \<and> fst (BUILTIN_YEAR_A ! 5) = ''The Epiphany''
   \<and> sublist (lower (fst (BUILTIN_YEAR_A ! 5)))
        (lower ''The First Sunday after the Epiphany: The Baptism of our Lord'')
   \<and> (\<exists>i<length BUILTIN_YEAR_A.
         lookup_builtin ''The First Sunday after the Epiphany: The Baptism of our Lord''
           = Some (builtin_result (snd (BUILTIN_YEAR_A ! i)))
         \<and> length (fst (BUILTIN_YEAR_A ! 5)) \<le> length (fst (BUILTIN_YEAR_A ! i)))
   \<and> lookup_builtin ''The First Sunday after the Epiphany: The Baptism of our Lord''
       = Some (builtin_result
                 (readings4 ''Isaiah 42:1-9'' ''Psalm 29'' ''Acts 10:34-43'' ''Matthew 3:13-17''))"
proof -
  let ?d = "''The First Sunday after the Epiphany: The Baptism of our Lord''"
  have n: "?d \<noteq> []" by simp
  have e: "exact_match (strip (lower ?d)) BUILTIN_YEAR_A = None" by code_simp
  then have ne: "\<forall>i<length BUILTIN_YEAR_A. lower (fst (BUILTIN_YEAR_A ! i)) \<noteq> strip (lower ?d)"
    by (simp add: exact_match_None)
  have five: "(5::nat) < length BUILTIN_YEAR_A" "fst (BUILTIN_YEAR_A ! 5) = ''The Epiphany''"
    by code_simp+
  have s: "sublist (lower (fst (BUILTIN_YEAR_A ! 5))) (lower ?d)" by code_simp
  have v: "lookup_builtin ?d
             = Some (builtin_result
                 (readings4 ''Isaiah 42:1-9'' ''Psalm 29'' ''Acts 10:34-43'' ''Matthew 3:13-17''))"
    by code_simp
  from lookup_builtin_longest_match [OF n] ne five(1) s
  have "\<exists>i<length BUILTIN_YEAR_A.
          lookup_builtin ?d = Some (builtin_result (snd (BUILTIN_YEAR_A ! i)))
          \<and> length (fst (BUILTIN_YEAR_A ! 5)) \<le> length (fst (BUILTIN_YEAR_A ! i))"
    by blast
  with n e five s v show ?thesis by blast
qed

section \<open>The tiered lookup\<close>

lemma cache_get_miss:
  assumes "\<not> redis_client svc \<or> \<not> redis_up w
           \<or> (case redis_store w key of
                 None \<Rightarrow> True
               | Some (t, Empty) \<Rightarrow> True
               | Some (t, Malformed) \<Rightarrow> True
               | Some (t, Encoded v) \<Rightarrow> \<not> truthy v)"
  shows "\<not> truthy (cache_get svc w key)"
  using assms
  by (auto simp add: cache_get_def split: option.splits wire.splits)

lemma lookup_daily_office_miss:
  assumes "daily_office_path svc = None
           \<or> (\<exists>dir. daily_office_path svc = Some dir
                  \<and> (files w (dataset_file dir D) = Absent
                     \<or> files w (dataset_file dir D) = Unreadable))
           \<or> lookup_daily_office svc w D = None"
  shows "lookup_daily_office svc w D = None"
  using assms
  by (auto simp add: lookup_daily_office_def split: option.splits sum.splits)

lemma lookup_lectserve_miss:
  assumes "http w (lectserve_url svc D) = NetError
           \<or> (\<exists>st b. http w (lectserve_url svc D) = Reply st b \<and> (st \<noteq> 200 \<or> b = BadBody))"
  shows "lookup_lectserve svc w D = None"
  using assms
  by (auto simp add: lookup_lectserve_def)

lemma lookup_builtin_empty: "lookup_builtin [] = None"
  by (simp add: lookup_builtin_def)

text \<open>
  C7. For an argument that denotes a valid date, when the cache misses or fails (no client,
  server down, key absent, text empty or not JSON, or a falsy value), the dataset gives nothing
  (no directory, file missing or unreadable, or no matching entry), the remote service fails,
  answers with another status than 200 or with a body that is not JSON, and no day name is given
  or the built-in table has no match for it, \<open>get_readings\<close> returns the \<^verbatim>\<open>none\<close>
  result, raises nothing and leaves the cache as it was.
\<close>

theorem get_readings_all_miss:
  assumes "to_date arg = Inr D" "valid_date D"
    and "\<not> redis_client svc \<or> \<not> redis_up w
         \<or> (case redis_store w (cache_key D) of
               None \<Rightarrow> True
             | Some (t, Empty) \<Rightarrow> True
             | Some (t, Malformed) \<Rightarrow> True
             | Some (t, Encoded v) \<Rightarrow> \<not> truthy v)"
    and "daily_office_path svc = None
         \<or> (\<exists>dir. daily_office_path svc = Some dir
                \<and> (files w (dataset_file dir D) = Absent
                   \<or> files w (dataset_file dir D) = Unreadable))
         \<or> lookup_daily_office svc w D = None"
    and "http w (lectserve_url svc D) = NetError
         \<or> (\<exists>st b. http w (lectserve_url svc D) = Reply st b \<and> (st \<noteq> 200 \<or> b = BadBody))"
    and "day_name = None \<or> (\<exists>n. day_name = Some n \<and> lookup_builtin n = None)"
  shows "get_readings svc w arg day_name
           = Inr ([(''source'', JStr ''none''), (''readings'', JNull),
                   (''message'', JStr ''No readings found'')], w)"
proof -
  have c: "\<not> truthy (cache_get svc w (cache_key D))" by (rule cache_get_miss [OF assms(3)])
  have d: "lookup_daily_office svc w D = None" by (rule lookup_daily_office_miss [OF assms(4)])
  have l: "lookup_lectserve svc w D = None" by (rule lookup_lectserve_miss [OF assms(5)])
  from assms(6) have b: "day_name \<noteq> None \<and> day_name \<noteq> Some [] \<longrightarrow> lookup_builtin (the day_name) = None"
    by auto
  show ?thesis
    using assms(1) c d l b
    by (simp add: get_readings_def Let_def none_result_def)
qed

text \<open>
  What the hypothesis on the cache leaves out: a cached value that is truthy and no dictionary
  (a list, a number, a string) is not a miss, and the item assignment on it raises.
\<close>

lemma cached_non_object_raises:
  assumes "to_date arg = Inr D" "redis_client svc" "redis_up w"
    and "redis_store w (cache_key D) = Some (t, Encoded (JArr [JInt 1]))"
  shows "get_readings svc w arg day_name = Inl TypeError"
  using assms by (simp add: get_readings_def cache_get_def Let_def)

theorem get_readings_all_miss_witness:
  "to_date (DDate \<lparr>year = 2026, month = 1, day = 25\<rparr>)
     = Inr \<lparr>year = 2026, month = 1, day = 25\<rparr>
   \<and> valid_date \<lparr>year = 2026, month = 1, day = 25\<rparr>
   \<and> \<not> redis_up offline_world
   \<and> files degraded_world (dataset_file ''/srv/daily-office'' \<lparr>year = 2026, month = 1, day = 25\<rparr>)
       = Unreadable
   \<and> http degraded_world (lectserve_url full_service \<lparr>year = 2026, month = 1, day = 25\<rparr>)
       = Reply 503 BadBody
   \<and> lookup_builtin ''Candlemas'' = None
   \<and> get_readings full_service degraded_world (DDate \<lparr>year = 2026, month = 1, day = 25\<rparr>)
        (Some ''Candlemas'')
       = Inr ([(''source'', JStr ''none''), (''readings'', JNull),
               (''message'', JStr ''No readings found'')], degraded_world)
   \<and> get_readings full_service offline_world (DDate \<lparr>year = 2026, month = 1, day = 25\<rparr>) None
       = Inr ([(''source'', JStr ''none''), (''readings'', JNull),
               (''message'', JStr ''No readings found'')], offline_world)"
proof -
  let ?D = "\<lparr>year = 2026, month = 1, day = 25\<rparr>"
  have v: "valid_date ?D" by (simp add: valid_date_def days_in_month_def)
  have a: "to_date (DDate ?D) = Inr ?D" by (simp add: to_date_def)
  have b: "lookup_builtin ''Candlemas'' = None" by code_simp
  have 1: "get_readings full_service degraded_world (DDate ?D) (Some ''Candlemas'')
             = Inr ([(''source'', JStr ''none''), (''readings'', JNull),
                     (''message'', JStr ''No readings found'')], degraded_world)"
    by (rule get_readings_all_miss [OF a v])
      (simp_all add: b full_service_def degraded_world_def)
  have 2: "get_readings full_service offline_world (DDate ?D) None
             = Inr ([(''source'', JStr ''none''), (''readings'', JNull),
                     (''message'', JStr ''No readings found'')], offline_world)"
    by (rule get_readings_all_miss [OF a v])
      (simp_all add: full_service_def offline_world_def)
  from a v b 1 2 show ?thesis
    by (simp add: offline_world_def degraded_world_def)
qed

lemma third_sunday_lookup:
  "lookup_builtin ''The Third Sunday after the Epiphany''
     = Some [(''source'', JStr ''builtin-year-a''),
             (''readings'',
              JObj [(''first_lesson'', JStr ''Isaiah 9:1-4''), (''psalm'', JStr ''Psalm 27:1, 5-13''),
                    (''second_lesson'', JStr ''1 Corinthians 1:10-18''),
                    (''gospel'', JStr ''Matthew 4:12-23'')])]"
  by code_simp

lemma january_25_parses:
  "to_date (DStr ''2026-01-25'') = Inr \<lparr>year = 2026, month = 1, day = 25\<rparr>"
  by code_simp

lemma january_25_key: "cache_key \<lparr>year = 2026, month = 1, day = 25\<rparr> = ''rcl:2026-01-25''"
  by code_simp

text \<open>
  C6 (as amended). With the cache empty or unreachable, the dataset unavailable and the remote
  service unreachable, \<open>get_readings\<close> on \<^verbatim>\<open>2026-01-25\<close> with the day name of the third
  Sunday after the Epiphany answers from the built-in table, with the source tag
  \<^verbatim>\<open>builtin-year-a\<close> and the readings Isaiah 9:1-4, Psalm 27:1, 5-13, 1 Corinthians 1:10-18
  and Matthew 4:12-23, and offers the answer to the cache.
\<close>

theorem third_sunday_after_epiphany_builtin:
  assumes "\<not> redis_client svc \<or> \<not> redis_up w \<or> redis_store w ''rcl:2026-01-25'' = None"
    and "daily_office_path svc = None \<or> (\<forall>p. files w p = Absent \<or> files w p = Unreadable)"
    and "\<forall>u. http w u = NetError"
  shows "get_readings svc w (DStr ''2026-01-25'') (Some ''The Third Sunday after the Epiphany'')
           = Inr ([(''source'', JStr ''builtin-year-a''),
                   (''readings'',
                    JObj [(''first_lesson'', JStr ''Isaiah 9:1-4''),
                          (''psalm'', JStr ''Psalm 27:1, 5-13''),
                          (''second_lesson'', JStr ''1 Corinthians 1:10-18''),
                          (''gospel'', JStr ''Matthew 4:12-23'')])],
                  cache_set svc w ''rcl:2026-01-25''
                    (JObj [(''source'', JStr ''builtin-year-a''),
                           (''readings'',
                            JObj [(''first_lesson'', JStr ''Isaiah 9:1-4''),
                                  (''psalm'', JStr ''Psalm 27:1, 5-13''),
                                  (''second_lesson'', JStr ''1 Corinthians 1:10-18''),
                                  (''gospel'', JStr ''Matthew 4:12-23'')])])
                    (7 * 86400))"
proof -
  let ?D = "\<lparr>year = 2026, month = 1, day = 25\<rparr>"
  from assms(1) have c: "\<not> truthy (cache_get svc w ''rcl:2026-01-25'')"
    by (intro cache_get_miss) auto
  from assms(2) have d: "lookup_daily_office svc w ?D = None"
    by (intro lookup_daily_office_miss) (cases "daily_office_path svc"; auto)
  from assms(3) have l: "lookup_lectserve svc w ?D = None"
    by (intro lookup_lectserve_miss) simp
  show ?thesis
    unfolding get_readings_def january_25_parses
    using c d l
    by (simp add: Let_def january_25_key third_sunday_lookup default_ttl_def)
qed

theorem third_sunday_after_epiphany_builtin_witness:
  "\<not> redis_client default_service \<and> daily_office_path default_service = None
   \<and> http offline_world ''https://lectserve.com/date/2026-01-25?lect=rcl'' = NetError
   \<and> get_readings default_service offline_world (DStr ''2026-01-25'')
        (Some ''The Third Sunday after the Epiphany'')
       = Inr ([(''source'', JStr ''builtin-year-a''),
               (''readings'',
                JObj [(''first_lesson'', JStr ''Isaiah 9:1-4''),
                      (''psalm'', JStr ''Psalm 27:1, 5-13''),
                      (''second_lesson'', JStr ''1 Corinthians 1:10-18''),
                      (''gospel'', JStr ''Matthew 4:12-23'')])], offline_world)"
proof -
  have 1: "\<not> redis_client default_service \<or> \<not> redis_up offline_world
           \<or> redis_store offline_world ''rcl:2026-01-25'' = None"
    by (simp add: default_service_def)
  have 2: "daily_office_path default_service = None
           \<or> (\<forall>p. files offline_world p = Absent \<or> files offline_world p = Unreadable)"
    by (simp add: default_service_def)
  have 3: "\<forall>u. http offline_world u = NetError"
    by (simp add: offline_world_def)
  have s: "cache_set default_service offline_world k v t = offline_world" for k v t
    by (simp add: cache_set_def default_service_def)
  note r = third_sunday_after_epiphany_builtin [OF 1 2 3, unfolded s]
  have a: "\<not> redis_client default_service" by (simp add: default_service_def)
  have b: "daily_office_path default_service = None" by (simp add: default_service_def)
  have c: "http offline_world ''https://lectserve.com/date/2026-01-25?lect=rcl'' = NetError"
    using 3 by (rule spec)
  show ?thesis by (intro conjI a b c r)
qed

text \<open>
  C6 as written gives the psalm as Psalm 27. The table entry of the third Sunday after the
  Epiphany cites Psalm 27:1, 5-13, and that is what the lookup returns.
\<close>

theorem third_sunday_psalm_counterexample:
  "map_sum id fst
     (get_readings default_service offline_world (DStr ''2026-01-25'')
        (Some ''The Third Sunday after the Epiphany''))
     = Inr [(''source'', JStr ''builtin-year-a''),
            (''readings'',
             JObj [(''first_lesson'', JStr ''Isaiah 9:1-4''),
                   (''psalm'', JStr ''Psalm 27:1, 5-13''),
                   (''second_lesson'', JStr ''1 Corinthians 1:10-18''),
                   (''gospel'', JStr ''Matthew 4:12-23'')])]
   \<and> ''Psalm 27:1, 5-13'' \<noteq> ''Psalm 27''"
  by code_simp

lemma get_readings_from_tiers:
  assumes "to_date arg = Inr D"
    and "get_readings svc w arg day_name = Inr (r, w')"
    and "map_of r ''source'' \<in> {Some (JStr ''daily-office-json''), Some (JStr ''lectserve''),
                                   Some (JStr ''builtin-year-a'')}"
  shows "w' = cache_set svc w (cache_key D) (JObj r) default_ttl \<and> r \<noteq> []"
proof (cases "truthy (cache_get svc w (cache_key D))")
  case True
  with assms(1,2) obtain kvs where "r = AList.update ''source'' (JStr ''redis-cache'') kvs"
    by (auto simp add: get_readings_def Let_def split: json.splits)
  then have "map_of r ''source'' = Some (JStr ''redis-cache'')"
    by (simp add: update_conv')
  with assms(3) show ?thesis by simp
next
  case False
  define res where "res =
    (let result = lookup_daily_office svc w D;
         result = (if result = None then lookup_lectserve svc w D else result)
     in if result = None \<and> day_name \<noteq> None \<and> day_name \<noteq> Some []
        then lookup_builtin (the day_name) else result)"
  from False assms(1) have g: "get_readings svc w arg day_name
      = (case res of
           Some r \<Rightarrow> Inr (r, cache_set svc w (cache_key D) (JObj r) default_ttl)
         | None \<Rightarrow> Inr (none_result, w))"
    by (simp add: get_readings_def Let_def res_def)
  show ?thesis
  proof (cases res)
    case None
    with g assms(2) have "r = none_result" by simp
    with assms(3) show ?thesis by (simp add: none_result_def)
  next
    case (Some x)
    with g assms(2) have "r = x" "w' = cache_set svc w (cache_key D) (JObj r) default_ttl"
      by simp_all
    moreover from assms(3) have "r \<noteq> []" by auto
    ultimately show ?thesis by simp
  qed
qed

text \<open>
  C8 (as amended). For an argument that denotes a valid date, when the service holds a Redis
  client and the server answers, a result that
  a first call took from the dataset, the remote service or the built-in table is stored under the
  key of the date with a time-to-live of seven days (604800 seconds), and the same call repeated on
  the collaborators as the first call left them returns that stored dictionary with the source
  tag \<^verbatim>\<open>redis-cache\<close> and the same readings. (Serialisation is the \<^verbatim>\<open>json\<close> module's:
  \<open>Encoded\<close> stands for text that reads back as the value written.)
\<close>

theorem cached_after_first_call:
  assumes "to_date arg = Inr D" "valid_date D" "redis_client svc" "redis_up w"
    and "get_readings svc w arg day_name = Inr (r, w')"
    and "map_of r ''source'' \<in> {Some (JStr ''daily-office-json''), Some (JStr ''lectserve''),
                                   Some (JStr ''builtin-year-a'')}"
  shows "w' = w\<lparr>redis_store := (redis_store w)(''rcl:'' @ isoformat D \<mapsto> (604800, Encoded (JObj r)))\<rparr>
       \<and> get_readings_twice svc w arg day_name
           = Inr (AList.update ''source'' (JStr ''redis-cache'') r, w')
       \<and> map_of (AList.update ''source'' (JStr ''redis-cache'') r) ''source''
           = Some (JStr ''redis-cache'')
       \<and> map_of (AList.update ''source'' (JStr ''redis-cache'') r) ''readings''
           = map_of r ''readings''"
proof -
  from get_readings_from_tiers [OF assms(1,5,6)]
  have w': "w' = cache_set svc w (cache_key D) (JObj r) default_ttl" and r: "r \<noteq> []"
    by simp_all
  from w' assms(3,4)
  have s: "w' = w\<lparr>redis_store := (redis_store w)(''rcl:'' @ isoformat D \<mapsto> (604800, Encoded (JObj r)))\<rparr>"
    by (simp add: cache_set_def cache_key_def default_ttl_def)
  then have "cache_get svc w' (cache_key D) = JObj r"
    using assms(3,4) by (simp add: cache_get_def cache_key_def)
  with r assms(1) have "get_readings svc w' arg day_name
                 = Inr (AList.update ''source'' (JStr ''redis-cache'') r, w')"
    by (simp add: get_readings_def Let_def)
  with assms(5) have t: "get_readings_twice svc w arg day_name
                 = Inr (AList.update ''source'' (JStr ''redis-cache'') r, w')"
    by (simp add: get_readings_twice_def)
  from s t show ?thesis by (simp add: update_conv')
qed

theorem cached_after_first_call_witness:
  "to_date (DDate \<lparr>year = 2026, month = 1, day = 25\<rparr>)
     = Inr \<lparr>year = 2026, month = 1, day = 25\<rparr>
   \<and> valid_date \<lparr>year = 2026, month = 1, day = 25\<rparr>
   \<and> redis_client full_service \<and> redis_up degraded_world
   \<and> get_readings full_service degraded_world (DDate \<lparr>year = 2026, month = 1, day = 25\<rparr>)
        (Some ''The Third Sunday after the Epiphany'')
       = Inr ([(''source'', JStr ''builtin-year-a''),
               (''readings'',
                JObj [(''first_lesson'', JStr ''Isaiah 9:1-4''),
                      (''psalm'', JStr ''Psalm 27:1, 5-13''),
                      (''second_lesson'', JStr ''1 Corinthians 1:10-18''),
                      (''gospel'', JStr ''Matthew 4:12-23'')])],
              cache_set full_service degraded_world ''rcl:2026-01-25''
                (JObj [(''source'', JStr ''builtin-year-a''),
                       (''readings'',
                        JObj [(''first_lesson'', JStr ''Isaiah 9:1-4''),
                              (''psalm'', JStr ''Psalm 27:1, 5-13''),
                              (''second_lesson'', JStr ''1 Corinthians 1:10-18''),
                              (''gospel'', JStr ''Matthew 4:12-23'')])]) 604800)
   \<and> get_readings_twice full_service degraded_world
        (DDate \<lparr>year = 2026, month = 1, day = 25\<rparr>)
        (Some ''The Third Sunday after the Epiphany'')
       = Inr ([(''source'', JStr ''redis-cache''),
               (''readings'',
                JObj [(''first_lesson'', JStr ''Isaiah 9:1-4''),
                      (''psalm'', JStr ''Psalm 27:1, 5-13''),
                      (''second_lesson'', JStr ''1 Corinthians 1:10-18''),
                      (''gospel'', JStr ''Matthew 4:12-23'')])],
              cache_set full_service degraded_world ''rcl:2026-01-25''
                (JObj [(''source'', JStr ''builtin-year-a''),
                       (''readings'',
                        JObj [(''first_lesson'', JStr ''Isaiah 9:1-4''),
                              (''psalm'', JStr ''Psalm 27:1, 5-13''),
                              (''second_lesson'', JStr ''1 Corinthians 1:10-18''),
                              (''gospel'', JStr ''Matthew 4:12-23'')])]) 604800)"
proof -
  let ?D = "\<lparr>year = 2026, month = 1, day = 25\<rparr>"
  let ?r = "[(''source'', JStr ''builtin-year-a''),
             (''readings'',
              JObj [(''first_lesson'', JStr ''Isaiah 9:1-4''),
                    (''psalm'', JStr ''Psalm 27:1, 5-13''),
                    (''second_lesson'', JStr ''1 Corinthians 1:10-18''),
                    (''gospel'', JStr ''Matthew 4:12-23'')])]"
  let ?w = "cache_set full_service degraded_world ''rcl:2026-01-25'' (JObj ?r) 604800"
  have v: "valid_date ?D" by (simp add: valid_date_def days_in_month_def)
  have a: "to_date (DDate ?D) = Inr ?D" by (simp add: to_date_def)
  have c: "redis_client full_service" by (simp add: full_service_def)
  have u: "redis_up degraded_world" by (simp add: degraded_world_def)
  have m: "\<not> truthy (cache_get full_service degraded_world (cache_key ?D))"
    by (intro cache_get_miss) (simp add: degraded_world_def)
  have d: "lookup_daily_office full_service degraded_world ?D = None"
    by (intro lookup_daily_office_miss) (simp add: full_service_def degraded_world_def)
  have l: "lookup_lectserve full_service degraded_world ?D = None"
    by (intro lookup_lectserve_miss) (simp add: degraded_world_def)
  have first: "get_readings full_service degraded_world (DDate ?D)
                 (Some ''The Third Sunday after the Epiphany'') = Inr (?r, ?w)"
    using m d l
    by (simp add: get_readings_def to_date_def Let_def third_sunday_lookup january_25_key
        default_ttl_def)
  have s: "map_of ?r ''source'' \<in> {Some (JStr ''daily-office-json''), Some (JStr ''lectserve''),
                                     Some (JStr ''builtin-year-a'')}"
    by simp
  from cached_after_first_call [OF a v c u first s]
  have "get_readings_twice full_service degraded_world (DDate ?D)
          (Some ''The Third Sunday after the Epiphany'')
          = Inr (AList.update ''source'' (JStr ''redis-cache'') ?r, ?w)"
    by blast
  then have second: "get_readings_twice full_service degraded_world (DDate ?D)
          (Some ''The Third Sunday after the Epiphany'')
          = Inr ([(''source'', JStr ''redis-cache''), (''readings'', snd (?r ! 1))], ?w)"
    by simp
  show ?thesis
    using a v c u first second by simp
qed

text \<open>
  C8 as written speaks of every service. \<^verbatim>\<open>LectionaryService()\<close> keeps no Redis
  client: nothing is stored, and the repeated call answers from the built-in table again.
\<close>

theorem no_cache_counterexample:
  "map_sum id fst
     (get_readings_twice default_service offline_world (DStr ''2026-01-25'')
        (Some ''The Third Sunday after the Epiphany''))
     = Inr [(''source'', JStr ''builtin-year-a''),
            (''readings'',
             JObj [(''first_lesson'', JStr ''Isaiah 9:1-4''),
                   (''psalm'', JStr ''Psalm 27:1, 5-13''),
                   (''second_lesson'', JStr ''1 Corinthians 1:10-18''),
                   (''gospel'', JStr ''Matthew 4:12-23'')])]
   \<and> ''builtin-year-a'' \<noteq> ''redis-cache''"
  by code_simp

text \<open>
  C10. When the cache holds a truthy value for the date, or the dataset or the remote service
  gives a result, the answer of \<open>get_readings\<close> (the error, or the dictionary and the state of
  the collaborators after the call) is the same for any two day names, the absent one included.
\<close>

theorem day_name_only_for_builtin:
  assumes "to_date arg = Inr D"
    and "truthy (cache_get svc w (cache_key D))
         \<or> lookup_daily_office svc w D \<noteq> None
         \<or> lookup_lectserve svc w D \<noteq> None"
  shows "get_readings svc w arg name1 = get_readings svc w arg name2"
proof (cases "truthy (cache_get svc w (cache_key D))")
  case True
  with assms(1) show ?thesis by (simp add: get_readings_def Let_def)
next
  case False
  with assms(2) have "lookup_daily_office svc w D \<noteq> None \<or> lookup_lectserve svc w D \<noteq> None"
    by simp
  with False assms(1) show ?thesis
    by (auto simp add: get_readings_def Let_def)
qed

theorem day_name_only_for_builtin_witness:
  "to_date (DStr ''2026-01-25'') = Inr \<lparr>year = 2026, month = 1, day = 25\<rparr>
   \<and> lookup_lectserve full_service online_world \<lparr>year = 2026, month = 1, day = 25\<rparr>
       = Some [(''source'', JStr ''lectserve''),
               (''readings'', JObj [(''gospel'', JStr ''Matthew 4:12-23'')])]
   \<and> get_readings full_service online_world (DStr ''2026-01-25'') None
       = get_readings full_service online_world (DStr ''2026-01-25'') (Some ''Palm Sunday'')
   \<and> map_sum id fst
        (get_readings full_service online_world (DStr ''2026-01-25'') (Some ''Palm Sunday''))
       = Inr [(''source'', JStr ''lectserve''),
              (''readings'', JObj [(''gospel'', JStr ''Matthew 4:12-23'')])]"
proof -
  let ?D = "\<lparr>year = 2026, month = 1, day = 25\<rparr>"
  have l: "lookup_lectserve full_service online_world ?D
             = Some [(''source'', JStr ''lectserve''),
                     (''readings'', JObj [(''gospel'', JStr ''Matthew 4:12-23'')])]"
    by (simp add: lookup_lectserve_def online_world_def)
  then have h: "truthy (cache_get full_service online_world (cache_key ?D))
         \<or> lookup_daily_office full_service online_world ?D \<noteq> None
         \<or> lookup_lectserve full_service online_world ?D \<noteq> None"
    by simp
  have e: "map_sum id fst
        (get_readings full_service online_world (DStr ''2026-01-25'') (Some ''Palm Sunday''))
       = Inr [(''source'', JStr ''lectserve''),
              (''readings'', JObj [(''gospel'', JStr ''Matthew 4:12-23'')])]"
    by code_simp
  from day_name_only_for_builtin [OF january_25_parses h, of None "Some ''Palm Sunday''"]
    january_25_parses l e
  show ?thesis by (intro conjI)
qed

end
